theory Spec2Isabelle
  imports Main "HOL-Library.Word" "HOL-Library.Sublist"
begin

unbundle bit_operations_syntax

section \<open>Scope\<close>

text \<open>
  A shallow embedding of the event pipeline of the file monitor: main.c,
  advanced\_monitor.c and the unified monitor.c (whose enhanced mode repeats
  enhanced\_monitor.c). Each C function is a HOL function of the same name on a record of
  the globals it reads and writes; names that main.c and advanced\_monitor.c share with
  monitor.c carry the prefix \<open>m_\<close> or \<open>a_\<close>. What the operating system answers (the
  clock, file contents, \<open>stat\<close>, \<open>inotify_add_watch\<close>, \<open>realloc\<close> of the watch table) is
  an argument. The model is sequential: one call runs at a time, so the mutexes and the
  statistics thread do not appear.
\<close>

section \<open>C strings and the kernel's event record\<close>

text \<open>
  A C string is modelled by the characters before its terminating NUL, so \<open>strcmp a b == 0\<close>
  is equality of lists. \<open>snprintf\<close> into a buffer of \<open>n\<close> bytes keeps the first
  \<open>n - 1\<close> characters of the formatted text; \<open>strncpy\<close> of \<open>n\<close> bytes into a
  zero-filled buffer longer than \<open>n\<close> keeps the first \<open>n\<close> characters.
\<close>

definition snprintf :: "nat \<Rightarrow> string \<Rightarrow> string" where
  "snprintf n s = take (n - 1) s"

definition strncpy :: "nat \<Rightarrow> string \<Rightarrow> string" where
  "strncpy n s = take n s"

text \<open>\<open>strrchr s c\<close>: the suffix of \<open>s\<close> that starts at the last occurrence of \<open>c\<close>.\<close>

fun strrchr :: "string \<Rightarrow> char \<Rightarrow> string option" where
  "strrchr [] c = None"
| "strrchr (x # xs) c =
     (case strrchr xs c of
        Some r \<Rightarrow> Some r
      | None \<Rightarrow> if x = c then Some (x # xs) else None)"

text \<open>\<open>strstr h n\<close>: the suffix of \<open>h\<close> that starts at the first occurrence of \<open>n\<close>.\<close>

fun strstr :: "string \<Rightarrow> string \<Rightarrow> string option" where
  "strstr [] n = (if n = [] then Some [] else None)"
| "strstr (x # xs) n = (if prefix n (x # xs) then Some (x # xs) else strstr xs n)"

text \<open>Decimal output of \<open>printf\<close> for \<open>%d\<close>, \<open>%ld\<close> and \<open>%zu\<close>.\<close>

definition digit_char :: "nat \<Rightarrow> char" where
  "digit_char d = ''0123456789'' ! d"

function dec_nat :: "nat \<Rightarrow> string" where
  "dec_nat n = (if n < 10 then [digit_char n] else dec_nat (n div 10) @ [digit_char (n mod 10)])"
  by pat_completeness auto
termination
  by (relation "measure id") auto

definition dec_int :: "int \<Rightarrow> string" where
  "dec_int i = (if i < 0 then CHR ''-'' # dec_nat (nat (- i)) else dec_nat (nat i))"

text \<open>
  \<open>struct inotify_event\<close> of \<open><sys/inotify.h>\<close>. \<open>len\<close> is the size of the name field;
  the kernel sets it to 0 exactly when the event carries no name.
\<close>

record inotify_event =
  wd :: int
  mask :: "32 word"
  cookie :: "32 word"
  len :: "32 word"
  name :: string

text \<open>The event bits of \<open><sys/inotify.h>\<close> (Linux), which the sources include.\<close>

definition IN_MODIFY :: "32 word" where "IN_MODIFY = 0x00000002"
definition IN_ATTRIB :: "32 word" where "IN_ATTRIB = 0x00000004"
definition IN_CLOSE_WRITE :: "32 word" where "IN_CLOSE_WRITE = 0x00000008"
definition IN_CLOSE_NOWRITE :: "32 word" where "IN_CLOSE_NOWRITE = 0x00000010"
definition IN_CLOSE :: "32 word" where "IN_CLOSE = IN_CLOSE_WRITE OR IN_CLOSE_NOWRITE"
definition IN_OPEN :: "32 word" where "IN_OPEN = 0x00000020"
definition IN_MOVED_FROM :: "32 word" where "IN_MOVED_FROM = 0x00000040"
definition IN_MOVED_TO :: "32 word" where "IN_MOVED_TO = 0x00000080"
definition IN_CREATE :: "32 word" where "IN_CREATE = 0x00000100"
definition IN_DELETE :: "32 word" where "IN_DELETE = 0x00000200"
definition IN_Q_OVERFLOW :: "32 word" where "IN_Q_OVERFLOW = 0x00004000"
definition IN_ISDIR :: "32 word" where "IN_ISDIR = 0x40000000"

text \<open>The C test \<open>event->mask & FLAG\<close>.\<close>

definition has_flag :: "32 word \<Rightarrow> 32 word \<Rightarrow> bool" where
  "has_flag m f = (m AND f \<noteq> 0)"

definition MAX_PATH_LEN :: nat where "MAX_PATH_LEN = 4096"

section \<open>What the operating system answers\<close>

text \<open>
  The directory tree below a path, as the installer's system calls see it while it walks:
  \<open>NoEnt\<close> is a path on which \<open>stat\<close> fails, \<open>NotDir\<close> one that is no directory, and
  \<open>Dir r ok es\<close> a directory for which \<open>inotify_add_watch\<close> and \<open>strerror(errno)\<close>
  (and, in enhanced mode, \<open>realloc\<close> and \<open>time\<close>) answer \<open>r\<close>, \<open>opendir\<close> succeeds iff \<open>ok\<close>, and \<open>readdir\<close>
  lists the names of \<open>es\<close> in order, each with what \<open>stat\<close> finds under that name.
\<close>

record add_watch_os =
  realloc_ok :: bool
  inotify_add_watch :: int
  strerror_errno :: string
  time_now :: int

datatype fsnode = NoEnt | NotDir | Dir add_watch_os bool "(string \<times> fsnode) list"

text \<open>
  What one call of an event handler reads from outside the process: the text
  \<open>get_timestamp\<close> formats, the clock, the bytes \<open>fopen\<close>/\<open>fread\<close> deliver for a path
  (\<open>None\<close>: the file cannot be opened), the \<open>st_size\<close> of \<open>stat\<close> (\<open>None\<close>: it fails),
  the tree below the event's path, and the library functions SHA-256 (32 bytes, by index)
  and gzip.
\<close>

record os_env =
  timestamp :: string
  clock :: int
  read_file :: "string \<Rightarrow> string option"
  stat_size :: "string \<Rightarrow> int option"
  subtree :: fsnode
  SHA256 :: "string \<Rightarrow> nat \<Rightarrow> 8 word"
  gzip :: "string \<Rightarrow> string"

section \<open>The extension filter (main.c, monitor.c, enhanced\_monitor.c)\<close>

text \<open>
  \<open>should_monitor_file\<close> has the same text in main.c, monitor.c and enhanced\_monitor.c.
  \<open>file_extensions\<close> holds the \<open>extension_count\<close> configured values.
\<close>

definition should_monitor_file :: "string list \<Rightarrow> string \<Rightarrow> bool" where
  "should_monitor_file file_extensions filename =
     (if length file_extensions = 0 then True
      else case strrchr filename CHR ''.'' of
             None \<Rightarrow> False
           | Some ext \<Rightarrow> tl ext \<in> set file_extensions)"


text \<open>An \<open>if (c) { ... }\<close> statement on the state.\<close>

definition when_c :: "bool \<Rightarrow> ('s \<Rightarrow> 's) \<Rightarrow> 's \<Rightarrow> 's" where
  "when_c c f s = (if c then f s else s)"

section \<open>main.c\<close>

text \<open>
  The globals of main.c that its watch installer and event handler read or write:
  the first \<open>watch_count\<close> slots of \<open>watch_descriptors\<close> and \<open>watch_paths\<close> as one list
  of pairs, the lines printed to standard output, the lines appended to the log file
  (\<open>None\<close> while \<open>log_file\<close> is \<open>NULL\<close>), \<open>recursive_mode\<close> and the extension list.
\<close>

record main_state =
  m_watches :: "(int \<times> string) list"
  m_stdout :: "string list"
  m_log_file :: "string list option"
  m_recursive_mode :: bool
  m_file_extensions :: "string list"

definition MAX_WATCHES :: nat where "MAX_WATCHES = 1024"
definition m_LOG_FILE :: string where "m_LOG_FILE = ''monitor.log''"
definition m_CONFIG_FILE :: string where "m_CONFIG_FILE = ''monitor.conf''"

definition m_log_event :: "string \<Rightarrow> string \<Rightarrow> main_state \<Rightarrow> main_state" where
  "m_log_event ts message st =
     (let line = ''['' @ ts @ ''] '' @ message in
      st\<lparr>m_stdout := m_stdout st @ [line],
         m_log_file := map_option (\<lambda>ls. ls @ [line]) (m_log_file st)\<rparr>)"

definition m_add_single_watch ::
  "string \<Rightarrow> add_watch_os \<Rightarrow> string \<Rightarrow> main_state \<Rightarrow> int \<times> main_state" where
  "m_add_single_watch ts r path st =
     (if length (m_watches st) \<ge> MAX_WATCHES
      then (- 1, m_log_event ts ''Maximum number of watches reached.'' st)
      else let w = inotify_add_watch r in
        if w = - 1
        then (- 1, m_log_event ts
                (snprintf 512 (''Failed to add watch: '' @ path @ '' ('' @ strerror_errno r @ '')'')) st)
        else (w, m_log_event ts (snprintf 512 (''Watch added: '' @ path))
                (st\<lparr>m_watches := m_watches st @ [(w, strncpy (MAX_PATH_LEN - 1) path)]\<rparr>)))"

fun is_dir :: "fsnode \<Rightarrow> bool" where
  "is_dir (Dir r ok es) = True"
| "is_dir n = False"

fun m_add_watch_recursive :: "string \<Rightarrow> fsnode \<Rightarrow> string \<Rightarrow> main_state \<Rightarrow> int \<times> main_state"
  and m_add_watch_entries ::
    "string \<Rightarrow> (string \<times> fsnode) list \<Rightarrow> string \<Rightarrow> main_state \<Rightarrow> main_state" where
  "m_add_watch_recursive ts NoEnt path st =
     (- 1, m_log_event ts (snprintf 512 (''Failed to check path status: '' @ path)) st)"
| "m_add_watch_recursive ts NotDir path st =
     (- 1, m_log_event ts ''Specified path is not a directory.'' st)"
| "m_add_watch_recursive ts (Dir r ok es) path st =
     (case m_add_single_watch ts r path st of (w, st1) \<Rightarrow>
        if w = - 1 then (- 1, st1)
        else if m_recursive_mode st1
        then (if \<not> ok
              then (- 1, m_log_event ts (snprintf 512 (''Failed to open directory: '' @ path)) st1)
              else (0, m_add_watch_entries ts es path st1))
        else (0, st1))"
| "m_add_watch_entries ts [] path st = st"
| "m_add_watch_entries ts ((d_name, node) # es) path st =
     (if d_name = ''.'' \<or> d_name = ''..'' then m_add_watch_entries ts es path st
      else let full_path = snprintf MAX_PATH_LEN (path @ ''/'' @ d_name) in
        if is_dir node
        then m_add_watch_entries ts es path (snd (m_add_watch_recursive ts node full_path st))
        else m_add_watch_entries ts es path st)"

definition m_handle_event :: "os_env \<Rightarrow> inotify_event \<Rightarrow> string \<Rightarrow> main_state \<Rightarrow> main_state" where
  "m_handle_event env event watch_path st =
     (if len event = 0 then st
      else if name event = m_LOG_FILE \<or> name event = m_CONFIG_FILE \<or>
              strstr (name event) ''.tmp'' \<noteq> None \<or> strstr (name event) ''.swp'' \<noteq> None
      then st
      else if \<not> should_monitor_file (m_file_extensions st) (name event) then st
      else let
        ts = timestamp env;
        full_path = snprintf MAX_PATH_LEN (watch_path @ ''/'' @ name event);
        st1 = when_c (has_flag (mask event) IN_CREATE)
                (\<lambda>s. let s1 = m_log_event ts (snprintf 1024 (''Created: '' @ full_path)) s in
                   if m_recursive_mode s1 \<and> has_flag (mask event) IN_ISDIR
                   then snd (m_add_watch_recursive ts (subtree env) full_path s1) else s1) st;
        st2 = when_c (has_flag (mask event) IN_DELETE)
                (m_log_event ts (snprintf 1024 (''Deleted: '' @ full_path))) st1;
        st3 = when_c (has_flag (mask event) IN_MODIFY)
                (m_log_event ts (snprintf 1024 (''Modified: '' @ full_path))) st2;
        st4 = when_c (has_flag (mask event) IN_MOVED_FROM)
                (m_log_event ts (snprintf 1024 (''Moved from: '' @ full_path))) st3;
        st5 = when_c (has_flag (mask event) IN_MOVED_TO)
                (m_log_event ts (snprintf 1024 (''Moved to: '' @ full_path))) st4;
        st6 = when_c (has_flag (mask event) IN_ATTRIB)
                (m_log_event ts (snprintf 1024 (''Attribute changed: '' @ full_path))) st5;
        st7 = when_c (has_flag (mask event) IN_OPEN)
                (m_log_event ts (snprintf 1024 (''Opened: '' @ full_path))) st6
      in when_c (has_flag (mask event) IN_CLOSE_WRITE)
           (m_log_event ts (snprintf 1024 (''Closed: '' @ full_path))) st7)"

text \<open>
  One turn of the inner loop of \<open>main\<close>: the first slot whose descriptor is the event's
  gives the watch path; an event of no known watch is passed over.
\<close>

definition m_dispatch :: "os_env \<Rightarrow> inotify_event \<Rightarrow> main_state \<Rightarrow> main_state" where
  "m_dispatch env event st =
     (case find (\<lambda>(w, p). w = wd event) (m_watches st) of
        None \<Rightarrow> st
      | Some (w, watch_path) \<Rightarrow> m_handle_event env event watch_path st)"


section \<open>advanced\_monitor.c\<close>

text \<open>
  \<open>file_hash_info_t\<close>: \<open>fh_size\<close> is \<open>None\<close> until a successful \<open>stat\<close> has written
  \<open>file_size\<close>. The table \<open>file_hashes\<close> is the list of its first \<open>hash_count\<close> slots.
  Its storage comes from \<open>realloc\<close>, which is taken to succeed and to hand out
  zero-filled memory, so that a digest copied by \<open>strncpy\<close> reads back as a string.
\<close>

record file_hash_info_t =
  filepath :: string
  hash :: string
  last_modified :: int
  fh_size :: "int option"

definition HASH_SIZE :: nat where "HASH_SIZE = 65"
definition SHA256_DIGEST_LENGTH :: nat where "SHA256_DIGEST_LENGTH = 32"

text \<open>\<open>sprintf(.., "%02x", b)\<close>: two lower-case hexadecimal digits.\<close>

definition hex_digit :: "nat \<Rightarrow> char" where
  "hex_digit d = ''0123456789abcdef'' ! d"

definition hex02x :: "8 word \<Rightarrow> string" where
  "hex02x b = [hex_digit (unat b div 16), hex_digit (unat b mod 16)]"

text \<open>
  \<open>calculate_file_hash\<close> (the same in advanced\_monitor.c and monitor.c): \<open>None\<close> is the
  \<open>NULL\<close> returned when the file cannot be opened, otherwise the 64 hexadecimal digits of
  the SHA-256 of the bytes read.
\<close>

definition calculate_file_hash :: "os_env \<Rightarrow> string \<Rightarrow> string option" where
  "calculate_file_hash env fp =
     (case read_file env fp of
        None \<Rightarrow> None
      | Some bytes \<Rightarrow>
          Some (concat (map (\<lambda>i. hex02x (SHA256 env bytes i)) [0..<SHA256_DIGEST_LENGTH])))"

text \<open>The index of the first slot whose \<open>filepath\<close> compares equal, as the search loops find it.\<close>

fun find_hash :: "file_hash_info_t list \<Rightarrow> string \<Rightarrow> nat option" where
  "find_hash [] fp = None"
| "find_hash (e # es) fp =
     (if filepath e = fp then Some 0 else map_option Suc (find_hash es fp))"

text \<open>
  \<open>pattern_rule_t\<close>: the stored pattern text, the compiled expression as the set of
  subjects on which \<open>regexec\<close> returns 0, and the action (0 exclude, 1 include, 2 alert).
\<close>

record pattern_rule_t =
  pattern :: string
  compiled_regex :: "string \<Rightarrow> bool"
  action :: int

record adv_state =
  a_watches :: "(int \<times> string) list"
  a_stdout :: "string list"
  a_log_file :: "string list option"
  a_recursive_mode :: bool
  a_file_extensions :: "string list"
  a_file_hashes :: "file_hash_info_t list"
  a_hash_capacity :: int
  a_events_processed :: "64 word"
  a_files_monitored :: "64 word"
  a_patterns :: "pattern_rule_t list"
  a_enable_checksum :: bool
  a_max_file_size_mb :: int

definition a_LOG_FILE :: string where "a_LOG_FILE = ''advanced_monitor.log''"
definition a_CONFIG_FILE :: string where "a_CONFIG_FILE = ''advanced_monitor.conf''"
definition a_STATS_FILE :: string where "a_STATS_FILE = ''monitor_stats.json''"

definition a_log_event :: "string \<Rightarrow> string \<Rightarrow> adv_state \<Rightarrow> adv_state" where
  "a_log_event ts message st =
     (let line = ''['' @ ts @ ''] '' @ message in
      st\<lparr>a_stdout := a_stdout st @ [line],
         a_log_file := map_option (\<lambda>ls. ls @ [line]) (a_log_file st),
         a_events_processed := a_events_processed st + 1\<rparr>)"

definition has_file_changed :: "os_env \<Rightarrow> string \<Rightarrow> adv_state \<Rightarrow> bool \<times> adv_state" where
  "has_file_changed env fp st =
     (if \<not> a_enable_checksum st then (True, st)
      else case find_hash (a_file_hashes st) fp of
        Some i \<Rightarrow>
          (case calculate_file_hash env fp of
             None \<Rightarrow> (True, st)
           | Some new_hash \<Rightarrow>
               let e = a_file_hashes st ! i; changed = (hash e \<noteq> new_hash) in
               if changed
               then (True, st\<lparr>a_file_hashes := (a_file_hashes st)
                       [i := e\<lparr>hash := strncpy (HASH_SIZE - 1) new_hash,
                               last_modified := clock env,
                               fh_size := (case stat_size env fp of
                                             Some n \<Rightarrow> Some n | None \<Rightarrow> fh_size e)\<rparr>]\<rparr>)
               else (False, st))
      | None \<Rightarrow>
          let st1 = (if int (length (a_file_hashes st)) \<ge> a_hash_capacity st
                     then st\<lparr>a_hash_capacity :=
                            (if a_hash_capacity st = 0 then 1000 else a_hash_capacity st * 2)\<rparr>
                     else st) in
          (case calculate_file_hash env fp of
             None \<Rightarrow> (True, st1)
           | Some new_hash \<Rightarrow>
               (True, st1\<lparr>a_file_hashes := a_file_hashes st1 @
                  [\<lparr>filepath = strncpy (MAX_PATH_LEN - 1) fp,
                    hash = strncpy (HASH_SIZE - 1) new_hash,
                    last_modified = clock env,
                    fh_size = stat_size env fp\<rparr>]\<rparr>)))"

text \<open>The alert text starts with the four UTF-8 bytes of the source's siren sign.\<close>

definition alert_msg :: "string \<Rightarrow> string \<Rightarrow> string" where
  "alert_msg pat filename =
     snprintf 512 ([CHR 0xF0, CHR 0x9F, CHR 0x9A, CHR 0xA8] @ '' ALERT: Pattern matched '' @
                   [CHR 0x27] @ pat @ [CHR 0x27] @ '' for file: '' @ filename)"

fun match_patterns_loop ::
  "string \<Rightarrow> pattern_rule_t list \<Rightarrow> string \<Rightarrow> adv_state \<Rightarrow> bool \<times> adv_state" where
  "match_patterns_loop ts [] filename st = (True, st)"
| "match_patterns_loop ts (p # ps) filename st =
     (if compiled_regex p filename
      then (if action p = 0 then (False, st)
            else if action p = 1 then (True, st)
            else if action p = 2
            then (True, a_log_event ts (alert_msg (pattern p) filename) st)
            else match_patterns_loop ts ps filename st)
      else match_patterns_loop ts ps filename st)"

definition match_patterns :: "string \<Rightarrow> string \<Rightarrow> adv_state \<Rightarrow> bool \<times> adv_state" where
  "match_patterns ts filename st =
     (if length (a_patterns st) = 0 then (True, st)
      else match_patterns_loop ts (a_patterns st) filename st)"

definition a_should_monitor_file :: "string \<Rightarrow> string \<Rightarrow> adv_state \<Rightarrow> bool \<times> adv_state" where
  "a_should_monitor_file ts filename st =
     (case match_patterns ts filename st of (ok, st1) \<Rightarrow>
        if \<not> ok then (False, st1)
        else (should_monitor_file (a_file_extensions st1) filename, st1))"

definition a_add_single_watch ::
  "string \<Rightarrow> add_watch_os \<Rightarrow> string \<Rightarrow> adv_state \<Rightarrow> int \<times> adv_state" where
  "a_add_single_watch ts r path st =
     (if length (a_watches st) \<ge> MAX_WATCHES
      then (- 1, a_log_event ts ''[WARN] Maximum number of watches reached.'' st)
      else let w = inotify_add_watch r in
        if w = - 1
        then (- 1, a_log_event ts
                (snprintf 512 (''[ERROR] Failed to add watch: '' @ path @ '' ('' @
                               strerror_errno r @ '')'')) st)
        else let st1 = a_log_event ts (snprintf 512 (''[WATCH] Watch added: '' @ path))
                         (st\<lparr>a_watches := a_watches st @ [(w, strncpy (MAX_PATH_LEN - 1) path)]\<rparr>)
             in (w, st1\<lparr>a_files_monitored := a_files_monitored st1 + 1\<rparr>))"

fun a_add_watch_recursive :: "string \<Rightarrow> fsnode \<Rightarrow> string \<Rightarrow> adv_state \<Rightarrow> int \<times> adv_state"
  and a_add_watch_entries ::
    "string \<Rightarrow> (string \<times> fsnode) list \<Rightarrow> string \<Rightarrow> adv_state \<Rightarrow> adv_state" where
  "a_add_watch_recursive ts NoEnt path st =
     (- 1, a_log_event ts (snprintf 512 (''[ERROR] Failed to check path status: '' @ path)) st)"
| "a_add_watch_recursive ts NotDir path st =
     (- 1, a_log_event ts ''[ERROR] Specified path is not a directory.'' st)"
| "a_add_watch_recursive ts (Dir r ok es) path st =
     (case a_add_single_watch ts r path st of (w, st1) \<Rightarrow>
        if w = - 1 then (- 1, st1)
        else if a_recursive_mode st1
        then (if \<not> ok
              then (- 1, a_log_event ts
                      (snprintf 512 (''[ERROR] Failed to open directory: '' @ path)) st1)
              else (0, a_add_watch_entries ts es path st1))
        else (0, st1))"
| "a_add_watch_entries ts [] path st = st"
| "a_add_watch_entries ts ((d_name, node) # es) path st =
     (if d_name = ''.'' \<or> d_name = ''..'' then a_add_watch_entries ts es path st
      else let full_path = snprintf MAX_PATH_LEN (path @ ''/'' @ d_name) in
        if is_dir node
        then a_add_watch_entries ts es path (snd (a_add_watch_recursive ts node full_path st))
        else a_add_watch_entries ts es path st)"

text \<open>
  The product of two \<open>int\<close> values, as the compiled code computes it: in 32 bits, with
  wrap-around (C itself leaves the overflow undefined).
\<close>

definition int_mul :: "int \<Rightarrow> int \<Rightarrow> int" where
  "int_mul a b = sint ((word_of_int a :: 32 word) * word_of_int b)"

text \<open>
  \<open>handle_event\<close> of advanced\_monitor.c. \<open>file_size\<close> stays 0 when \<open>stat\<close> fails; sizes
  are not negative, so C's division is \<open>div\<close>. The limit \<open>max_file_size_mb * 1024 * 1024\<close>
  is an \<open>int\<close> product, compared with the \<open>long\<close> size after it has wrapped.
\<close>

definition a_handle_event :: "os_env \<Rightarrow> inotify_event \<Rightarrow> string \<Rightarrow> adv_state \<Rightarrow> adv_state" where
  "a_handle_event env event watch_path st =
     (if len event = 0 then st
      else if name event = a_LOG_FILE \<or> name event = a_CONFIG_FILE \<or>
              name event = a_STATS_FILE \<or>
              strstr (name event) ''.tmp'' \<noteq> None \<or> strstr (name event) ''.swp'' \<noteq> None
      then st
      else case a_should_monitor_file (timestamp env) (name event) st of (ok, st0) \<Rightarrow>
        if \<not> ok then st0
        else let
          ts = timestamp env;
          full_path = snprintf MAX_PATH_LEN (watch_path @ ''/'' @ name event);
          file_size = (case stat_size env full_path of Some n \<Rightarrow> n | None \<Rightarrow> 0);
          bytes = '' ('' @ dec_int file_size @ '' bytes)'';
          sa = (case stat_size env full_path of
                  None \<Rightarrow> st0
                | Some n \<Rightarrow>
                    when_c (n > int_mul (int_mul (a_max_file_size_mb st0) 1024) 1024)
                      (a_log_event ts (snprintf 1024 (''Large file detected ('' @
                          dec_int (n div (1024 * 1024)) @ '' MB): '' @ full_path))) st0);
          st1 = when_c (has_flag (mask event) IN_CREATE)
                  (\<lambda>s. let s1 = a_log_event ts (snprintf 1024 (''Created: '' @ full_path @ bytes)) s in
                     if a_recursive_mode s1 \<and> has_flag (mask event) IN_ISDIR
                     then snd (a_add_watch_recursive ts (subtree env) full_path s1) else s1) sa;
          st2 = when_c (has_flag (mask event) IN_DELETE)
                  (a_log_event ts (snprintf 1024 (''Deleted: '' @ full_path))) st1;
          st3 = when_c (has_flag (mask event) IN_MODIFY)
                  (\<lambda>s. case has_file_changed env full_path s of (changed, s1) \<Rightarrow>
                     when_c changed
                       (a_log_event ts (snprintf 1024 (''Modified: '' @ full_path @ bytes))) s1) st2;
          st4 = when_c (has_flag (mask event) IN_MOVED_FROM)
                  (a_log_event ts (snprintf 1024 (''Moved from: '' @ full_path))) st3;
          st5 = when_c (has_flag (mask event) IN_MOVED_TO)
                  (a_log_event ts (snprintf 1024 (''Moved to: '' @ full_path @ bytes))) st4;
          st6 = when_c (has_flag (mask event) IN_ATTRIB)
                  (a_log_event ts (snprintf 1024 (''Attribute changed: '' @ full_path))) st5;
          st7 = when_c (has_flag (mask event) IN_OPEN)
                  (a_log_event ts (snprintf 1024 (''Opened: '' @ full_path))) st6
        in when_c (has_flag (mask event) IN_CLOSE_WRITE)
             (a_log_event ts (snprintf 1024 (''Closed: '' @ full_path @ bytes))) st7)"


section \<open>monitor.c: state\<close>

datatype monitor_mode_t = MODE_BASIC | MODE_ADVANCED | MODE_ENHANCED

text \<open>
  \<open>FILE *log_file\<close>: \<open>NULL\<close>, an open stream, or a pointer to a stream that \<open>fclose\<close> has
  closed. C leaves the use of the last undefined; the model sets \<open>stream_misuse\<close> at such a
  use and writes nothing.
\<close>

datatype stream = Null | Open | Closed

record watch_entry_t =
  we_wd :: int
  we_path :: string
  added_time :: int
  event_count :: "64 word"

text \<open>\<open>watch_manager_t\<close>: \<open>entries\<close> is the list of the first \<open>count\<close> slots.\<close>

record watch_manager_t =
  entries :: "watch_entry_t list"
  capacity :: nat

record monitor_stats_t =
  total_events :: "64 word"
  watch_limit_hits :: "64 word"
  memory_reallocations :: "64 word"
  most_active_path :: string
  max_events_per_path :: "64 word"

text \<open>
  The globals of monitor.c. \<open>files\<close> is the working directory, where the log and its
  generations live: a map from file names to contents, on which \<open>access\<close>, \<open>rename\<close>,
  \<open>unlink\<close>, \<open>fopen\<close> and \<open>gzopen\<close> succeed whenever the named file is there (or, to
  write, always). \<open>watch_table\<close> is the first \<open>watch_count\<close> slots of
  \<open>watch_descriptors\<close> and \<open>watch_paths\<close>.
\<close>

record monitor_state =
  mode :: monitor_mode_t
  log_file :: stream
  files :: "string \<Rightarrow> string option"
  stream_misuse :: bool
  recursive_mode :: bool
  watch_table :: "(int \<times> string) list"
  watch_manager :: watch_manager_t
  file_hashes :: "file_hash_info_t list"
  hash_capacity :: int
  enable_checksum :: bool
  enable_compression :: bool
  file_extensions :: "string list"
  stats :: monitor_stats_t

definition LOG_FILE :: string where "LOG_FILE = ''monitor.log''"
definition INITIAL_WATCH_CAPACITY :: nat where "INITIAL_WATCH_CAPACITY = 1024"
definition WATCH_GROWTH_FACTOR :: nat where "WATCH_GROWTH_FACTOR = 2"
definition MAX_LOG_SIZE_MB :: int where "MAX_LOG_SIZE_MB = 50"
definition MAX_LOG_FILES :: nat where "MAX_LOG_FILES = 10"

section \<open>monitor.c: the log and its rotation\<close>

text \<open>\<open>get_timestamp\<close>: \<open>strftime\<close> into 20 bytes.\<close>

definition get_timestamp :: "os_env \<Rightarrow> string" where
  "get_timestamp env = take 19 (timestamp env)"

definition rename_file :: "string \<Rightarrow> string \<Rightarrow> (string \<Rightarrow> string option) \<Rightarrow> string \<Rightarrow> string option" where
  "rename_file old new fs =
     (case fs old of None \<Rightarrow> fs | Some c \<Rightarrow> (fs(old := None))(new := Some c))"

definition unlink :: "string \<Rightarrow> (string \<Rightarrow> string option) \<Rightarrow> string \<Rightarrow> string option" where
  "unlink n fs = fs(n := None)"

text \<open>\<open>fopen(n, "a")\<close> creates an empty file when there is none.\<close>

definition fopen_append :: "string \<Rightarrow> (string \<Rightarrow> string option) \<Rightarrow> string \<Rightarrow> string option" where
  "fopen_append n fs = (case fs n of None \<Rightarrow> fs(n := Some []) | Some c \<Rightarrow> fs)"

text \<open>The name \<open>"%s.%d"\<close> of generation \<open>i\<close>.\<close>

definition gen_name :: "nat \<Rightarrow> string" where
  "gen_name i = snprintf MAX_PATH_LEN (LOG_FILE @ ''.'' @ dec_int (int i))"

text \<open>
  The loop of \<open>rotate_log_file\<close>, \<open>for (i = MAX_LOG_FILES - 1; i > 0; i--)\<close>:
  \<open>shift_generations i\<close> runs the turns \<open>i, i - 1, ..., 1\<close>.
\<close>

fun shift_generations :: "nat \<Rightarrow> (string \<Rightarrow> string option) \<Rightarrow> string \<Rightarrow> string option" where
  "shift_generations 0 fs = fs"
| "shift_generations (Suc k) fs =
     (let old_name = gen_name k; new_name = gen_name (Suc k) in
      shift_generations k
        (if fs old_name \<noteq> None
         then (if Suc k = MAX_LOG_FILES - 1 then unlink old_name fs
               else rename_file old_name new_name fs)
         else fs))"

text \<open>
  \<open>log_event\<close>, \<open>rotate_log_file\<close> and \<open>compress_old_log\<close> call each other. Each body is
  written first over the functions it calls (\<open>rot\<close>, \<open>lg\<close>); the knot is tied below.
\<close>

definition log_event_with ::
  "(os_env \<Rightarrow> monitor_state \<Rightarrow> monitor_state) \<Rightarrow> os_env \<Rightarrow> string \<Rightarrow> monitor_state \<Rightarrow> monitor_state" where
  "log_event_with rot env message st =
     (case log_file st of
        Null \<Rightarrow> st
      | Closed \<Rightarrow> st\<lparr>stream_misuse := True\<rparr>
      | Open \<Rightarrow>
          let line = ''['' @ get_timestamp env @ ''] '' @ message @ [CHR 0x0A];
              content = (case files st LOG_FILE of None \<Rightarrow> [] | Some c \<Rightarrow> c) @ line;
              st1 = st\<lparr>files := (files st)(LOG_FILE := Some content)\<rparr>
          in if mode st1 = MODE_ADVANCED \<and> int (length content) > MAX_LOG_SIZE_MB * 1024 * 1024
             then rot env st1 else st1)"

definition compress_old_log_with ::
  "(os_env \<Rightarrow> string \<Rightarrow> monitor_state \<Rightarrow> monitor_state) \<Rightarrow> os_env \<Rightarrow> string \<Rightarrow>
     monitor_state \<Rightarrow> monitor_state" where
  "compress_old_log_with lg env filename st =
     (let gz_filename = snprintf MAX_PATH_LEN (filename @ ''.gz'') in
      case files st filename of
        None \<Rightarrow> st
      | Some c \<Rightarrow>
          lg env (snprintf 512 (''[INFO] Compressed log file: '' @ gz_filename))
            (st\<lparr>files := unlink filename ((files st)(gz_filename := Some (gzip env c)))\<rparr>))"

definition rotate_log_file_with ::
  "(os_env \<Rightarrow> string \<Rightarrow> monitor_state \<Rightarrow> monitor_state) \<Rightarrow> os_env \<Rightarrow>
     monitor_state \<Rightarrow> monitor_state" where
  "rotate_log_file_with lg env st =
     (if log_file st = Null then st
      else let
        st1 = st\<lparr>log_file := Closed, stream_misuse := (stream_misuse st \<or> log_file st = Closed)\<rparr>;
        new_name = gen_name 0;
        st2 = st1\<lparr>files := rename_file LOG_FILE new_name
                               (shift_generations (MAX_LOG_FILES - 1) (files st1))\<rparr>;
        st3 = when_c (enable_compression st2) (compress_old_log_with lg env new_name) st2;
        st4 = st3\<lparr>log_file := Open, files := fopen_append LOG_FILE (files st3)\<rparr>
      in lg env ''[INFO] Log file rotated successfully'' st4)"

text \<open>
  A \<open>log_event\<close> called while a rotation runs finds the stream closed or the log new, and
  never rotates again (lemma \<open>rotate_log_file_unfold\<close>): its own call of
  \<open>rotate_log_file\<close> is cut.
\<close>

definition log_event_in_rotation :: "os_env \<Rightarrow> string \<Rightarrow> monitor_state \<Rightarrow> monitor_state" where
  "log_event_in_rotation = log_event_with (\<lambda>env st. st)"

definition compress_old_log :: "os_env \<Rightarrow> string \<Rightarrow> monitor_state \<Rightarrow> monitor_state" where
  "compress_old_log = compress_old_log_with log_event_in_rotation"

definition rotate_log_file :: "os_env \<Rightarrow> monitor_state \<Rightarrow> monitor_state" where
  "rotate_log_file = rotate_log_file_with log_event_in_rotation"

definition log_event :: "os_env \<Rightarrow> string \<Rightarrow> monitor_state \<Rightarrow> monitor_state" where
  "log_event = log_event_with rotate_log_file"


section \<open>monitor.c: the watch registries\<close>

definition add_watch_basic ::
  "os_env \<Rightarrow> add_watch_os \<Rightarrow> string \<Rightarrow> monitor_state \<Rightarrow> int \<times> monitor_state" where
  "add_watch_basic env r path st =
     (if length (watch_table st) \<ge> 1024
      then (- 1, log_event env ''[ERROR] Maximum watch limit reached (basic mode)'' st)
      else let w = inotify_add_watch r in
        if w = - 1
        then (- 1, log_event env
                (snprintf 512 (''[ERROR] Failed to add watch for '' @ path @ '': '' @
                               strerror_errno r)) st)
        else (w, log_event env
                (snprintf 512 (''[WATCH] Added: '' @ path @ '' (wd: '' @ dec_int w @ '')''))
                (st\<lparr>watch_table := watch_table st @ [(w, strncpy (MAX_PATH_LEN - 1) path)]\<rparr>)))"

fun add_watch_recursive_basic ::
    "os_env \<Rightarrow> fsnode \<Rightarrow> string \<Rightarrow> monitor_state \<Rightarrow> int \<times> monitor_state"
  and add_watch_entries_basic ::
    "os_env \<Rightarrow> (string \<times> fsnode) list \<Rightarrow> string \<Rightarrow> monitor_state \<Rightarrow> monitor_state" where
  "add_watch_recursive_basic env NoEnt path st =
     (- 1, log_event env (snprintf 512 (''[ERROR] Cannot stat path: '' @ path)) st)"
| "add_watch_recursive_basic env NotDir path st =
     (- 1, log_event env ''[ERROR] Path is not a directory'' st)"
| "add_watch_recursive_basic env (Dir r ok es) path st =
     (case add_watch_basic env r path st of (w, st1) \<Rightarrow>
        if w = - 1 then (- 1, st1)
        else if \<not> recursive_mode st1 then (0, st1)
        else if \<not> ok
        then (- 1, log_event env (snprintf 512 (''[ERROR] Cannot open directory: '' @ path)) st1)
        else (0, add_watch_entries_basic env es path st1))"
| "add_watch_entries_basic env [] path st = st"
| "add_watch_entries_basic env ((d_name, node) # es) path st =
     (if d_name = ''.'' \<or> d_name = ''..'' then add_watch_entries_basic env es path st
      else let subpath = snprintf MAX_PATH_LEN (path @ ''/'' @ d_name) in
        if is_dir node
        then add_watch_entries_basic env es path (snd (add_watch_recursive_basic env node subpath st))
        else add_watch_entries_basic env es path st)"

text \<open>
  \<open>add_watch_dynamic\<close>. \<open>size_t\<close> has 64 bits, so the product \<open>capacity * 2\<close> is taken
  modulo \<open>2 ^ 64\<close>.
\<close>

definition add_watch_dynamic ::
  "os_env \<Rightarrow> add_watch_os \<Rightarrow> string \<Rightarrow> monitor_state \<Rightarrow> int \<times> monitor_state" where
  "add_watch_dynamic env r path st =
     (let wm = watch_manager st;
          new_capacity = (capacity wm * WATCH_GROWTH_FACTOR) mod 2 ^ 64;
          grow = (length (entries wm) \<ge> capacity wm) in
      if grow \<and> \<not> realloc_ok r
      then (let st1 = log_event env ''[ERROR] Failed to expand watch manager capacity'' st in
            (- 1, st1\<lparr>stats := (stats st1)\<lparr>watch_limit_hits := watch_limit_hits (stats st1) + 1\<rparr>\<rparr>))
      else let
        st1 = when_c grow
                (\<lambda>s. log_event env
                        (snprintf 256 (''[INFO] Watch manager expanded to '' @
                                       dec_int (int new_capacity) @ '' entries''))
                        (s\<lparr>watch_manager := (watch_manager s)\<lparr>capacity := new_capacity\<rparr>,
                           stats := (stats s)\<lparr>memory_reallocations :=
                                                memory_reallocations (stats s) + 1\<rparr>\<rparr>)) st;
        w = inotify_add_watch r
      in if w = - 1
         then (- 1, log_event env
                 (snprintf 512 (''[ERROR] Failed to add watch for '' @ path @ '': '' @
                                strerror_errno r)) st1)
         else (w, log_event env
                 (snprintf 512 (''[WATCH] Added: '' @ path @ '' (wd: '' @ dec_int w @ '')''))
                 (st1\<lparr>watch_manager := (watch_manager st1)\<lparr>entries := entries (watch_manager st1) @
                        [\<lparr>we_wd = w, we_path = strncpy (MAX_PATH_LEN - 1) path,
                          added_time = time_now r, event_count = 0\<rparr>]\<rparr>\<rparr>)))"

text \<open>\<open>find_watch_by_wd\<close>: the index of the first entry of that descriptor.\<close>

fun find_watch_by_wd :: "watch_entry_t list \<Rightarrow> int \<Rightarrow> nat option" where
  "find_watch_by_wd [] w = None"
| "find_watch_by_wd (e # es) w =
     (if we_wd e = w then Some 0 else map_option Suc (find_watch_by_wd es w))"

fun add_watch_recursive_enhanced ::
    "os_env \<Rightarrow> fsnode \<Rightarrow> string \<Rightarrow> monitor_state \<Rightarrow> int \<times> monitor_state"
  and add_watch_entries_enhanced ::
    "os_env \<Rightarrow> (string \<times> fsnode) list \<Rightarrow> string \<Rightarrow> monitor_state \<Rightarrow> monitor_state" where
  "add_watch_recursive_enhanced env NoEnt path st =
     (- 1, log_event env (snprintf 512 (''[ERROR] Cannot stat path: '' @ path)) st)"
| "add_watch_recursive_enhanced env NotDir path st =
     (- 1, log_event env ''[ERROR] Path is not a directory'' st)"
| "add_watch_recursive_enhanced env (Dir r ok es) path st =
     (case add_watch_dynamic env r path st of (w, st1) \<Rightarrow>
        if w = - 1 then (- 1, st1)
        else if \<not> recursive_mode st1 then (0, st1)
        else if \<not> ok
        then (- 1, log_event env (snprintf 512 (''[ERROR] Cannot open directory: '' @ path)) st1)
        else (0, add_watch_entries_enhanced env es path st1))"
| "add_watch_entries_enhanced env [] path st = st"
| "add_watch_entries_enhanced env ((d_name, node) # es) path st =
     (if d_name = ''.'' \<or> d_name = ''..'' then add_watch_entries_enhanced env es path st
      else let subpath = snprintf MAX_PATH_LEN (path @ ''/'' @ d_name) in
        if is_dir node
        then add_watch_entries_enhanced env es path
               (snd (add_watch_recursive_enhanced env node subpath st))
        else add_watch_entries_enhanced env es path st)"

section \<open>monitor.c: the fingerprint cache\<close>

definition check_file_changed :: "os_env \<Rightarrow> string \<Rightarrow> monitor_state \<Rightarrow> bool \<times> monitor_state" where
  "check_file_changed env fp st =
     (if \<not> enable_checksum st then (True, st)
      else case calculate_file_hash env fp of
        None \<Rightarrow> (True, st)
      | Some new_hash \<Rightarrow>
          (case find_hash (file_hashes st) fp of
             Some i \<Rightarrow>
               let e = file_hashes st ! i; changed = (hash e \<noteq> new_hash) in
               if changed
               then (True, st\<lparr>file_hashes := (file_hashes st)
                       [i := e\<lparr>hash := strncpy (HASH_SIZE - 1) new_hash,
                               last_modified := clock env\<rparr>]\<rparr>)
               else (False, st)
           | None \<Rightarrow>
               let st1 = (if int (length (file_hashes st)) \<ge> hash_capacity st
                          then st\<lparr>hash_capacity :=
                                 (if hash_capacity st = 0 then 100 else hash_capacity st * 2)\<rparr>
                          else st) in
               (True, st1\<lparr>file_hashes := file_hashes st1 @
                  [\<lparr>filepath = strncpy (MAX_PATH_LEN - 1) fp,
                    hash = strncpy (HASH_SIZE - 1) new_hash,
                    last_modified = clock env,
                    fh_size = stat_size env fp\<rparr>]\<rparr>)))"

section \<open>monitor.c: the event handlers\<close>

definition bump_total_events :: "monitor_state \<Rightarrow> monitor_state" where
  "bump_total_events st = st\<lparr>stats := (stats st)\<lparr>total_events := total_events (stats st) + 1\<rparr>\<rparr>"

text \<open>
  The run of \<open>if (event->mask & ...)\<close> statements the three handlers share; \<open>install\<close> is
  the handler's installer and \<open>modified\<close> its \<open>IN_MODIFY\<close> statement.
\<close>

definition report_flags ::
  "os_env \<Rightarrow> (monitor_state \<Rightarrow> monitor_state) \<Rightarrow> (monitor_state \<Rightarrow> monitor_state) \<Rightarrow>
     32 word \<Rightarrow> string \<Rightarrow> monitor_state \<Rightarrow> monitor_state" where
  "report_flags env install modified m full_path st =
     (let
        n = MAX_PATH_LEN + 100;
        st1 = when_c (has_flag m IN_CREATE)
                (\<lambda>s. let s1 = log_event env (snprintf n (''Created: '' @ full_path)) s in
                   if has_flag m IN_ISDIR \<and> recursive_mode s1 then install s1 else s1) st;
        st2 = when_c (has_flag m IN_DELETE)
                (log_event env (snprintf n (''Deleted: '' @ full_path))) st1;
        st3 = when_c (has_flag m IN_MODIFY) modified st2;
        st4 = when_c (has_flag m IN_MOVED_FROM)
                (log_event env (snprintf n (''Moved from: '' @ full_path))) st3;
        st5 = when_c (has_flag m IN_MOVED_TO)
                (log_event env (snprintf n (''Moved to: '' @ full_path))) st4;
        st6 = when_c (has_flag m IN_OPEN)
                (log_event env (snprintf n (''Opened: '' @ full_path))) st5
      in when_c (has_flag m IN_CLOSE)
           (log_event env (snprintf n (''Closed: '' @ full_path))) st6)"

definition handle_event_basic ::
  "os_env \<Rightarrow> inotify_event \<Rightarrow> string \<Rightarrow> monitor_state \<Rightarrow> monitor_state" where
  "handle_event_basic env event watch_path st =
     (let st0 = bump_total_events st in
      if len event > 0
      then let full_path = snprintf MAX_PATH_LEN (watch_path @ ''/'' @ name event) in
        if \<not> should_monitor_file (file_extensions st0) (name event) then st0
        else report_flags env
               (\<lambda>s. snd (add_watch_recursive_basic env (subtree env) full_path s))
               (log_event env (snprintf (MAX_PATH_LEN + 100) (''Modified: '' @ full_path)))
               (mask event) full_path st0
      else st0)"

definition handle_event_advanced ::
  "os_env \<Rightarrow> inotify_event \<Rightarrow> string \<Rightarrow> monitor_state \<Rightarrow> monitor_state" where
  "handle_event_advanced env event watch_path st =
     (let st0 = bump_total_events st in
      if len event > 0
      then let full_path = snprintf MAX_PATH_LEN (watch_path @ ''/'' @ name event) in
        if \<not> should_monitor_file (file_extensions st0) (name event) then st0
        else report_flags env
               (\<lambda>s. snd (add_watch_recursive_basic env (subtree env) full_path s))
               (\<lambda>s. case check_file_changed env full_path s of (changed, s1) \<Rightarrow>
                  when_c changed
                    (log_event env (snprintf (MAX_PATH_LEN + 100)
                       (''Modified (checksum changed): '' @ full_path))) s1)
               (mask event) full_path st0
      else st0)"

definition handle_event_enhanced :: "os_env \<Rightarrow> inotify_event \<Rightarrow> monitor_state \<Rightarrow> monitor_state" where
  "handle_event_enhanced env event st =
     (case find_watch_by_wd (entries (watch_manager st)) (wd event) of
        None \<Rightarrow> log_event env ''[WARN] Event from unknown watch descriptor'' st
      | Some i \<Rightarrow>
          let e = (entries (watch_manager st) ! i)
                    \<lparr>event_count := event_count (entries (watch_manager st) ! i) + 1\<rparr>;
              sa = st\<lparr>watch_manager := (watch_manager st)
                        \<lparr>entries := (entries (watch_manager st))[i := e]\<rparr>\<rparr>;
              sb = bump_total_events sa;
              st0 = when_c (event_count e > max_events_per_path (stats sb))
                      (\<lambda>s. s\<lparr>stats := (stats s)
                                \<lparr>max_events_per_path := event_count e,
                                 most_active_path := strncpy (MAX_PATH_LEN - 1) (we_path e)\<rparr>\<rparr>) sb
          in if len event > 0
             then let full_path = snprintf MAX_PATH_LEN (we_path e @ ''/'' @ name event) in
               if \<not> should_monitor_file (file_extensions st0) (name event) then st0
               else report_flags env
                      (\<lambda>s. snd (add_watch_recursive_enhanced env (subtree env) full_path s))
                      (log_event env (snprintf (MAX_PATH_LEN + 100) (''Modified: '' @ full_path)))
                      (mask event) full_path st0
             else st0)"

text \<open>One turn of the inner loop of \<open>main\<close> in monitor.c.\<close>

definition dispatch :: "os_env \<Rightarrow> inotify_event \<Rightarrow> monitor_state \<Rightarrow> monitor_state" where
  "dispatch env event st =
     (if mode st = MODE_ENHANCED then handle_event_enhanced env event st
      else case find (\<lambda>(w, p). w = wd event) (watch_table st) of
        None \<Rightarrow> st
      | Some (w, path) \<Rightarrow>
          if mode st = MODE_ADVANCED then handle_event_advanced env event path st
          else handle_event_basic env event path st)"


section \<open>Notions used to state the properties\<close>

text \<open>The digest stored for a path: the \<open>hash\<close> of the slot the search loop finds.\<close>

definition stored_hash :: "file_hash_info_t list \<Rightarrow> string \<Rightarrow> string option" where
  "stored_hash es fp = map_option (\<lambda>i. hash (es ! i)) (find_hash es fp)"

text \<open>
  The pattern layer as the specification words it: an exclude match rejects, an include
  match accepts, an alert match falls through to the rest of the rule list.
\<close>

fun pattern_layer_spec :: "pattern_rule_t list \<Rightarrow> string \<Rightarrow> bool" where
  "pattern_layer_spec [] filename = True"
| "pattern_layer_spec (p # ps) filename =
     (if compiled_regex p filename \<and> action p = 0 then False
      else if compiled_regex p filename \<and> action p = 1 then True
      else pattern_layer_spec ps filename)"

text \<open>The run of a list of registrations, each with what the system answers to it.\<close>

fun register_all :: "os_env \<Rightarrow> (add_watch_os \<times> string) list \<Rightarrow> monitor_state \<Rightarrow> monitor_state" where
  "register_all env [] st = st"
| "register_all env ((r, path) # ops) st = register_all env ops (snd (add_watch_dynamic env r path st))"

text \<open>What the log functions leave alone: everything but the files and the stream.\<close>

definition only_log_changed :: "monitor_state \<Rightarrow> monitor_state \<Rightarrow> bool" where
  "only_log_changed st st' =
     (mode st' = mode st \<and> recursive_mode st' = recursive_mode st \<and>
      watch_table st' = watch_table st \<and> watch_manager st' = watch_manager st \<and>
      file_hashes st' = file_hashes st \<and> hash_capacity st' = hash_capacity st \<and>
      enable_checksum st' = enable_checksum st \<and>
      enable_compression st' = enable_compression st \<and>
      file_extensions st' = file_extensions st \<and> stats st' = stats st)"

section \<open>Concrete inputs\<close>

text \<open>
  An environment in which no file can be read and the event's path does not exist, and
  one in which every file reads as \<open>abc\<close>.
\<close>

definition env0 :: os_env where
  "env0 = \<lparr>timestamp = ''2024-01-01 00:00:00'', clock = 0, read_file = (\<lambda>p. None),
            stat_size = (\<lambda>p. None), subtree = NoEnt,
            SHA256 = (\<lambda>bytes i. of_nat (length bytes + i)), gzip = (\<lambda>c. ''gz:'' @ c)\<rparr>"

definition env_abc :: os_env where
  "env_abc = env0\<lparr>read_file := (\<lambda>p. Some ''abc''), stat_size := (\<lambda>p. Some 3)\<rparr>"

definition os_ok :: add_watch_os where
  "os_ok = \<lparr>realloc_ok = True, inotify_add_watch = 7, strerror_errno = ''Success'',
             time_now = 0\<rparr>"

text \<open>main.c and advanced\_monitor.c after start-up on \<open>/w\<close>, monitoring \<open>txt\<close> files.\<close>

definition main0 :: main_state where
  "main0 = \<lparr>m_watches = [(1, ''/w'')], m_stdout = [], m_log_file = Some [],
             m_recursive_mode = True, m_file_extensions = [''txt'']\<rparr>"

definition adv0 :: adv_state where
  "adv0 = \<lparr>a_watches = [(1, ''/w'')], a_stdout = [], a_log_file = Some [],
            a_recursive_mode = True, a_file_extensions = [''txt''], a_file_hashes = [],
            a_hash_capacity = 0, a_events_processed = 0, a_files_monitored = 0,
            a_patterns = [], a_enable_checksum = True, a_max_file_size_mb = 100\<rparr>"

text \<open>An alert rule and an exclude rule that match every name.\<close>

definition alert_all :: pattern_rule_t where
  "alert_all = \<lparr>pattern = ''.*'', compiled_regex = (\<lambda>s. True), action = 2\<rparr>"

definition exclude_all :: pattern_rule_t where
  "exclude_all = \<lparr>pattern = ''.*'', compiled_regex = (\<lambda>s. True), action = 0\<rparr>"

text \<open>monitor.c after start-up on \<open>/w\<close> with no configuration file, the log empty.\<close>

definition stats0 :: monitor_stats_t where
  "stats0 = \<lparr>total_events = 0, watch_limit_hits = 0, memory_reallocations = 0,
              most_active_path = ''none'', max_events_per_path = 0\<rparr>"

definition state0 :: monitor_state where
  "state0 = \<lparr>mode = MODE_BASIC, log_file = Open,
              files = (\<lambda>n. if n = ''monitor.log'' then Some [] else None),
              stream_misuse = False, recursive_mode = True, watch_table = [(1, ''/w'')],
              watch_manager = \<lparr>entries = [], capacity = 0\<rparr>, file_hashes = [],
              hash_capacity = 0, enable_checksum = True, enable_compression = True,
              file_extensions = [], stats = stats0\<rparr>"

text \<open>The kernel's queue-overflow marker, and events on \<open>/w\<close>.\<close>

definition overflow_event :: inotify_event where
  "overflow_event = \<lparr>wd = - 1, mask = IN_Q_OVERFLOW, cookie = 0, len = 0, name = []\<rparr>"

definition event_on :: "string \<Rightarrow> 32 word \<Rightarrow> inotify_event" where
  "event_on n m = \<lparr>wd = 1, mask = m, cookie = 0, len = 16, name = n\<rparr>"

text \<open>
  The enhanced registry holds the watch 1 on \<open>/w\<close>; \<open>a.log\<close> is modified there while only
  \<open>txt\<close> is monitored.
\<close>

definition enhanced1 :: monitor_state where
  "enhanced1 = state0\<lparr>mode := MODE_ENHANCED, file_extensions := [''txt''],
     watch_manager := \<lparr>entries = [\<lparr>we_wd = 1, we_path = ''/w'', added_time = 0, event_count = 0\<rparr>],
                       capacity = 1024\<rparr>\<rparr>"

text \<open>The enhanced registry as \<open>init_watch_manager\<close> sizes it, with every slot taken.\<close>

definition full1 :: monitor_state where
  "full1 = state0\<lparr>mode := MODE_ENHANCED,
     watch_manager :=
       \<lparr>entries = replicate 1024 \<lparr>we_wd = 1, we_path = ''/w'', added_time = 0, event_count = 0\<rparr>,
        capacity = INITIAL_WATCH_CAPACITY\<rparr>\<rparr>"

text \<open>
  monitor.c in advanced mode after one rotation with compression: the log holds \<open>new\<close>,
  the compressed generation 0 holds what was logged before.
\<close>

definition rotated_once :: monitor_state where
  "rotated_once = state0\<lparr>mode := MODE_ADVANCED,
     files := (\<lambda>n. if n = ''monitor.log'' then Some ''new''
                    else if n = ''monitor.log.0.gz'' then Some ''gz:old'' else None)\<rparr>"

section \<open>Properties\<close>

subsection \<open>Facts about the string functions\<close>

lemma strrchr_None: "strrchr s c = None \<longleftrightarrow> c \<notin> set s"
  by (induction s) (auto split: option.splits)

lemma strrchr_Some:
  "strrchr s c = Some r \<longleftrightarrow> (\<exists>pre suf. s = pre @ c # suf \<and> c \<notin> set suf \<and> r = c # suf)"
proof (induction s arbitrary: r)
  case Nil
  then show ?case by simp
next
  case (Cons x xs)
  show ?case
  proof (cases "strrchr xs c")
    case None
    then have nin: "c \<notin> set xs" by (simp add: strrchr_None)
    show ?thesis
    proof
      assume "strrchr (x # xs) c = Some r"
      with None have "x = c" "r = x # xs" by (auto split: if_splits)
      with nin show "\<exists>pre suf. x # xs = pre @ c # suf \<and> c \<notin> set suf \<and> r = c # suf"
        by (intro exI[of _ "[]"] exI[of _ xs]) simp
    next
      assume "\<exists>pre suf. x # xs = pre @ c # suf \<and> c \<notin> set suf \<and> r = c # suf"
      then obtain pre suf where e: "x # xs = pre @ c # suf" "c \<notin> set suf" "r = c # suf" by blast
      show "strrchr (x # xs) c = Some r"
      proof (cases pre)
        case Nil
        with e None show ?thesis by simp
      next
        case (Cons p ps)
        with e have "xs = ps @ c # suf" by simp
        with nin show ?thesis by simp
      qed
    qed
  next
    case (Some r')
    then obtain pre' suf' where e': "xs = pre' @ c # suf'" "c \<notin> set suf'" "r' = c # suf'"
      using Cons.IH by blast
    show ?thesis
    proof
      assume "strrchr (x # xs) c = Some r"
      with Some have "r = r'" by simp
      with e' show "\<exists>pre suf. x # xs = pre @ c # suf \<and> c \<notin> set suf \<and> r = c # suf"
        by (intro exI[of _ "x # pre'"] exI[of _ suf']) simp
    next
      assume "\<exists>pre suf. x # xs = pre @ c # suf \<and> c \<notin> set suf \<and> r = c # suf"
      then obtain pre suf where e: "x # xs = pre @ c # suf" "c \<notin> set suf" "r = c # suf" by blast
      have "pre \<noteq> []"
      proof
        assume "pre = []"
        with e have "xs = suf" by simp
        with e' e show False by simp
      qed
      then obtain p ps where "pre = p # ps" by (cases pre) auto
      with e have "xs = ps @ c # suf" by simp
      then have "strrchr xs c = Some (c # suf)" using Cons.IH e(2) by blast
      then have "strrchr (x # xs) c = Some (c # suf)" by simp
      with e(3) show "strrchr (x # xs) c = Some r" by simp
    qed
  qed
qed

lemma strstr_iff: "strstr h n \<noteq> None \<longleftrightarrow> (\<exists>a b. h = a @ n @ b)"
proof (induction h)
  case Nil
  then show ?case by auto
next
  case (Cons x xs)
  show ?case
  proof
    assume "strstr (x # xs) n \<noteq> None"
    then consider "prefix n (x # xs)" | "strstr xs n \<noteq> None" by (auto split: if_splits)
    then show "\<exists>a b. x # xs = a @ n @ b"
    proof cases
      case 1
      then obtain b where "x # xs = n @ b" by (auto simp: prefix_def)
      then show ?thesis by (intro exI[of _ "[]"] exI[of _ b]) simp
    next
      case 2
      then obtain a b where "xs = a @ n @ b" using Cons.IH by blast
      then show ?thesis by (intro exI[of _ "x # a"] exI[of _ b]) simp
    qed
  next
    assume "\<exists>a b. x # xs = a @ n @ b"
    then obtain a b where e: "x # xs = a @ n @ b" by blast
    show "strstr (x # xs) n \<noteq> None"
    proof (cases a)
      case Nil
      with e have "prefix n (x # xs)" by (simp add: prefix_def)
      then show ?thesis by simp
    next
      case (Cons y ys)
      with e have "xs = ys @ n @ b" by simp
      then have "strstr xs n \<noteq> None" using Cons.IH by blast
      then show ?thesis by simp
    qed
  qed
qed

subsection \<open>The size limit of advanced\_monitor.c\<close>

text \<open>
  The default limit of 100 MB is computed exactly; from 2048 MB upward the \<open>int\<close> product
  has wrapped, and at 4096 MB every file that is not empty counts as large.
\<close>

lemma int_mul_wraps:
  "int_mul (int_mul 100 1024) 1024 = 104857600 \<and>
   int_mul (int_mul 2048 1024) 1024 = - 2147483648 \<and>
   int_mul (int_mul 4096 1024) 1024 = 0"
  by (simp add: int_mul_def)

subsection \<open>C7: the extension layer\<close>

text \<open>
  Claim C7. With an empty extension list \<open>should_monitor_file\<close> accepts every filename.
  With a non-empty list it accepts a filename exactly when the text after the last dot of
  the name is, character for character, one of the listed values; a filename with no dot
  is then rejected.
\<close>

theorem extension_layer:
  "(exts = [] \<longrightarrow> should_monitor_file exts f) \<and>
   (exts \<noteq> [] \<longrightarrow>
      (should_monitor_file exts f \<longleftrightarrow>
         (\<exists>pre ext. f = pre @ CHR ''.'' # ext \<and> CHR ''.'' \<notin> set ext \<and> ext \<in> set exts))) \<and>
   (exts \<noteq> [] \<and> CHR ''.'' \<notin> set f \<longrightarrow> \<not> should_monitor_file exts f)"
proof (intro conjI impI)
  assume "exts = []"
  then show "should_monitor_file exts f" by (simp add: should_monitor_file_def)
next
  assume ne: "exts \<noteq> []"
  show "should_monitor_file exts f \<longleftrightarrow>
         (\<exists>pre ext. f = pre @ CHR ''.'' # ext \<and> CHR ''.'' \<notin> set ext \<and> ext \<in> set exts)"
  proof (cases "strrchr f CHR ''.''")
    case None
    then have "CHR ''.'' \<notin> set f" by (simp add: strrchr_None)
    with None ne show ?thesis by (auto simp: should_monitor_file_def)
  next
    case (Some r)
    then obtain pre suf where e: "f = pre @ CHR ''.'' # suf" "CHR ''.'' \<notin> set suf" "r = CHR ''.'' # suf"
      by (auto simp: strrchr_Some)
    have uniq: "ext = suf" if "f = p @ CHR ''.'' # ext" "CHR ''.'' \<notin> set ext" for p ext
    proof -
      from that have "strrchr f CHR ''.'' = Some (CHR ''.'' # ext)" by (auto simp: strrchr_Some)
      with Some e show ?thesis by simp
    qed
    from Some ne e have "should_monitor_file exts f \<longleftrightarrow> suf \<in> set exts"
      by (simp add: should_monitor_file_def)
    also have "\<dots> \<longleftrightarrow> (\<exists>pre ext. f = pre @ CHR ''.'' # ext \<and> CHR ''.'' \<notin> set ext \<and> ext \<in> set exts)"
      using e uniq by blast
    finally show ?thesis .
  qed
next
  assume "exts \<noteq> [] \<and> CHR ''.'' \<notin> set f"
  then show "\<not> should_monitor_file exts f"
    by (auto simp: should_monitor_file_def strrchr_None[symmetric])
qed

text \<open>
  At the list \<open>txt\<close>: \<open>notes.tar.txt\<close> passes, \<open>notes.TXT\<close> and \<open>README\<close> do not; at the
  empty list \<open>README\<close> passes.
\<close>

theorem extension_layer_witness:
  "should_monitor_file [] ''README'' \<and>
   (\<exists>pre ext. ''notes.tar.txt'' = pre @ CHR ''.'' # ext \<and> CHR ''.'' \<notin> set ext \<and> ext \<in> set [''txt'']) \<and>
   should_monitor_file [''txt''] ''notes.tar.txt'' \<and>
   \<not> should_monitor_file [''txt''] ''notes.TXT'' \<and>
   \<not> should_monitor_file [''txt''] ''README''"
proof -
  have a: "should_monitor_file [] ''README''"
    using extension_layer[of "[]" "''README''"] by simp
  have e: "\<exists>pre ext. ''notes.tar.txt'' = pre @ CHR ''.'' # ext \<and> CHR ''.'' \<notin> set ext \<and>
             ext \<in> set [''txt'']"
    by (rule exI[of _ "''notes.tar''"], rule exI[of _ "''txt''"]) simp
  have b: "should_monitor_file [''txt''] ''notes.tar.txt''"
    using extension_layer[of "[''txt'']" "''notes.tar.txt''"] e by simp
  have c: "\<not> should_monitor_file [''txt''] ''README''"
    using extension_layer[of "[''txt'']" "''README''"] by simp
  have d: "\<not> should_monitor_file [''txt''] ''notes.TXT''"
    by (simp add: should_monitor_file_def)
  from a e b c d show ?thesis by blast
qed

subsection \<open>C10: transient markers anywhere in the name\<close>

text \<open>
  Claim C10. \<open>handle_event\<close> of main.c and of advanced\_monitor.c return the state as it
  was (no log line, no pattern or extension filter consulted, no cache entry touched, no
  watch added) for every event whose name contains \<open>.tmp\<close> or \<open>.swp\<close> anywhere, not only
  at its end.
\<close>

theorem transient_marker_anywhere_dropped:
  assumes "(\<exists>a b. name event = a @ ''.tmp'' @ b) \<or> (\<exists>a b. name event = a @ ''.swp'' @ b)"
  shows "m_handle_event env event watch_path st = st \<and>
         a_handle_event env event watch_path sa = sa"
proof -
  from assms have "strstr (name event) ''.tmp'' \<noteq> None \<or> strstr (name event) ''.swp'' \<noteq> None"
    by (simp only: strstr_iff)
  then show ?thesis
    by (auto simp: m_handle_event_def a_handle_event_def)
qed

text \<open>
  \<open>a.tmp.txt\<close> is created while \<open>txt\<close> is on the allow-list, and \<open>x.swpfile\<close> while the
  list is empty: neither leaves a trace.
\<close>

theorem transient_marker_anywhere_dropped_witness:
  "should_monitor_file (m_file_extensions main0) ''a.tmp.txt'' \<and>
   m_handle_event env_abc (event_on ''a.tmp.txt'' IN_CREATE) ''/w'' main0 = main0 \<and>
   a_handle_event env_abc (event_on ''x.swpfile'' IN_CREATE) ''/w''
     (adv0\<lparr>a_file_extensions := []\<rparr>) = adv0\<lparr>a_file_extensions := []\<rparr>"
proof -
  have a: "(\<exists>a b. name (event_on ''a.tmp.txt'' IN_CREATE) = a @ ''.tmp'' @ b) \<or>
           (\<exists>a b. name (event_on ''a.tmp.txt'' IN_CREATE) = a @ ''.swp'' @ b)"
    by (rule disjI1, rule exI[of _ "''a''"], rule exI[of _ "''.txt''"]) (simp add: event_on_def)
  have b: "(\<exists>a b. name (event_on ''x.swpfile'' IN_CREATE) = a @ ''.tmp'' @ b) \<or>
           (\<exists>a b. name (event_on ''x.swpfile'' IN_CREATE) = a @ ''.swp'' @ b)"
    by (rule disjI2, rule exI[of _ "''x''"], rule exI[of _ "''file''"]) (simp add: event_on_def)
  have c: "should_monitor_file (m_file_extensions main0) ''a.tmp.txt''"
    by (simp add: should_monitor_file_def main0_def)
  from transient_marker_anywhere_dropped[OF a] transient_marker_anywhere_dropped[OF b] c
  show ?thesis by blast
qed

subsection \<open>C2: the pattern layer\<close>

lemma match_patterns_loop_find:
  "match_patterns_loop ts ps f st =
     (case find (\<lambda>p. compiled_regex p f \<and> action p \<in> {0, 1, 2}) ps of
        None \<Rightarrow> (True, st)
      | Some p \<Rightarrow> if action p = 0 then (False, st)
                  else if action p = 1 then (True, st)
                  else (True, a_log_event ts (alert_msg (pattern p) f) st))"
  by (induction ps) auto

text \<open>
  Claim C2, as stated, fails: under the rules \<open>alert\<close>, \<open>exclude\<close>, both matching,
  \<open>match_patterns\<close> accepts the name at the alert rule, where a rule list in which alert
  falls through rejects it at the exclude rule.
\<close>

theorem pattern_layer_alert_counterexample:
  "fst (match_patterns ''T'' ''x.tmp'' (adv0\<lparr>a_patterns := [alert_all, exclude_all]\<rparr>)) = True \<and>
   pattern_layer_spec [alert_all, exclude_all] ''x.tmp'' = False"
  by (simp add: match_patterns_def adv0_def alert_all_def exclude_all_def)

text \<open>
  Claim C2, amended. \<open>match_patterns\<close> evaluates the rules in registration order and the
  first rule that matches the filename decides: an exclude rule rejects, an include rule
  accepts, and an alert rule logs its notice and accepts at once, so that no later rule
  is consulted. When no rule matches, and when there is no rule, the filename is accepted
  and nothing is logged.
\<close>

theorem pattern_layer_first_match_decides:
  "match_patterns ts f st =
     (case find (\<lambda>p. compiled_regex p f \<and> action p \<in> {0, 1, 2}) (a_patterns st) of
        None \<Rightarrow> (True, st)
      | Some p \<Rightarrow> if action p = 0 then (False, st)
                  else if action p = 1 then (True, st)
                  else (True, a_log_event ts (alert_msg (pattern p) f) st))"
  by (cases "a_patterns st")
     (simp_all add: match_patterns_def match_patterns_loop_find del: match_patterns_loop.simps)

theorem pattern_layer_first_match_decides_witness:
  "match_patterns ''T'' ''x.tmp'' (adv0\<lparr>a_patterns := [alert_all, exclude_all]\<rparr>) =
     (True, a_log_event ''T'' (alert_msg ''.*'' ''x.tmp'')
              (adv0\<lparr>a_patterns := [alert_all, exclude_all]\<rparr>)) \<and>
   match_patterns ''T'' ''x.tmp'' (adv0\<lparr>a_patterns := [exclude_all, alert_all]\<rparr>) =
     (False, adv0\<lparr>a_patterns := [exclude_all, alert_all]\<rparr>) \<and>
   match_patterns ''T'' ''x.tmp'' adv0 = (True, adv0)"
  using pattern_layer_first_match_decides[of "''T''" "''x.tmp''"
          "adv0\<lparr>a_patterns := [alert_all, exclude_all]\<rparr>"]
        pattern_layer_first_match_decides[of "''T''" "''x.tmp''"
          "adv0\<lparr>a_patterns := [exclude_all, alert_all]\<rparr>"]
        pattern_layer_first_match_decides[of "''T''" "''x.tmp''" "adv0"]
  by (simp add: adv0_def alert_all_def exclude_all_def)

subsection \<open>C1: the change-detection cache\<close>

lemma length_hex: "length (concat (map (\<lambda>i. hex02x (f i)) xs)) = 2 * length xs"
  by (induction xs) (simp_all add: hex02x_def)

lemma length_calculate_file_hash:
  "calculate_file_hash env fp = Some d \<Longrightarrow> length d = HASH_SIZE - 1"
  by (auto simp: calculate_file_hash_def length_hex
        SHA256_DIGEST_LENGTH_def HASH_SIZE_def split: option.splits)

lemma find_hash_Some:
  "find_hash es fp = Some i \<Longrightarrow> i < length es \<and> filepath (es ! i) = fp"
  by (induction es arbitrary: i) (auto split: if_splits)

lemma find_hash_same_paths:
  "map filepath es' = map filepath es \<Longrightarrow> find_hash es' q = find_hash es q"
proof (induction es arbitrary: es')
  case Nil
  then show ?case by simp
next
  case (Cons e es)
  from Cons.prems obtain e' es'' where e: "es' = e' # es''" by (cases es') auto
  with Cons.prems have "filepath e' = filepath e" "map filepath es'' = map filepath es" by simp_all
  with Cons.IH[of es''] e show ?case by simp
qed

lemma find_hash_update:
  assumes "find_hash es fp = Some i" "filepath e' = fp"
  shows "find_hash (es[i := e']) q = find_hash es q"
proof -
  from assms find_hash_Some[OF assms(1)] have "map filepath (es[i := e']) = map filepath es"
    by (simp add: map_update list_update_same_conv)
  then show ?thesis by (rule find_hash_same_paths)
qed

lemma find_hash_append:
  "find_hash (es @ [e]) q =
     (case find_hash es q of
        Some i \<Rightarrow> Some i
      | None \<Rightarrow> if filepath e = q then Some (length es) else None)"
  by (induction es) (auto split: option.splits)

lemma stored_hash_update:
  assumes "find_hash es fp = Some i" "filepath e' = fp"
  shows "stored_hash (es[i := e']) q = (if q = fp then Some (hash e') else stored_hash es q)"
proof (cases "q = fp")
  case True
  with assms find_hash_Some[OF assms(1)] show ?thesis
    by (simp add: stored_hash_def find_hash_update)
next
  case False
  show ?thesis
  proof (cases "find_hash es q")
    case None
    with False assms show ?thesis by (simp add: stored_hash_def find_hash_update)
  next
    case (Some j)
    from find_hash_Some[OF Some] find_hash_Some[OF assms(1)] False have "j \<noteq> i" by auto
    with Some False assms show ?thesis by (simp add: stored_hash_def find_hash_update)
  qed
qed

lemma stored_hash_append:
  assumes "find_hash es (filepath e) = None"
  shows "stored_hash (es @ [e]) q = (if q = filepath e then Some (hash e) else stored_hash es q)"
proof (cases "find_hash es q")
  case None
  then show ?thesis by (auto simp: stored_hash_def find_hash_append)
next
  case (Some j)
  with assms have "q \<noteq> filepath e" by auto
  moreover from find_hash_Some[OF Some] have "j < length es" by simp
  ultimately show ?thesis using Some by (simp add: stored_hash_def find_hash_append nth_append)
qed

lemma stored_hash_None: "stored_hash es fp = None \<longleftrightarrow> find_hash es fp = None"
  by (simp add: stored_hash_def)

lemma stored_hash_SomeD:
  "stored_hash es fp = Some h \<Longrightarrow> \<exists>i. find_hash es fp = Some i \<and> hash (es ! i) = h"
  by (auto simp: stored_hash_def)

lemma check_file_changed_first:
  assumes "enable_checksum st" "calculate_file_hash env fp = Some d" "length fp < MAX_PATH_LEN"
    "stored_hash (file_hashes st) fp = None"
  shows "fst (check_file_changed env fp st) = True"
    and "stored_hash (file_hashes (snd (check_file_changed env fp st))) q =
           (if q = fp then Some d else stored_hash (file_hashes st) q)"
proof -
  from assms(4) have n: "find_hash (file_hashes st) fp = None" by (simp add: stored_hash_None)
  from assms(2) have l: "length d = HASH_SIZE - 1" by (rule length_calculate_file_hash)
  from assms n show "fst (check_file_changed env fp st) = True"
    by (simp add: check_file_changed_def Let_def)
  from assms(3) have t: "strncpy (MAX_PATH_LEN - 1) fp = fp" by (simp add: strncpy_def)
  from l have t2: "strncpy (HASH_SIZE - 1) d = d" by (simp add: strncpy_def)
  from assms(1,2) n t t2
  show "stored_hash (file_hashes (snd (check_file_changed env fp st))) q =
           (if q = fp then Some d else stored_hash (file_hashes st) q)"
    by (simp add: check_file_changed_def Let_def stored_hash_append)
qed

lemma check_file_changed_later:
  assumes "enable_checksum st" "calculate_file_hash env fp = Some d"
    "stored_hash (file_hashes st) fp = Some h"
  shows "fst (check_file_changed env fp st) = (d \<noteq> h)"
    and "stored_hash (file_hashes (snd (check_file_changed env fp st))) q =
           (if q = fp then Some d else stored_hash (file_hashes st) q)"
    and "d = h \<Longrightarrow> snd (check_file_changed env fp st) = st"
proof -
  from assms(3) obtain i where i: "find_hash (file_hashes st) fp = Some i"
    "hash (file_hashes st ! i) = h" by (auto dest: stored_hash_SomeD)
  from assms(2) have l: "length d = HASH_SIZE - 1" by (rule length_calculate_file_hash)
  then have t2: "strncpy (HASH_SIZE - 1) d = d" by (simp add: strncpy_def)
  from assms(1,2) i show "fst (check_file_changed env fp st) = (d \<noteq> h)"
    by (auto simp: check_file_changed_def Let_def)
  from assms(1,2) i show "d = h \<Longrightarrow> snd (check_file_changed env fp st) = st"
    by (auto simp: check_file_changed_def Let_def)
  from find_hash_Some[OF i(1)] have fp: "filepath (file_hashes st ! i) = fp" by simp
  show "stored_hash (file_hashes (snd (check_file_changed env fp st))) q =
           (if q = fp then Some d else stored_hash (file_hashes st) q)"
  proof (cases "d = h")
    case True
    with assms(1,2,3) i show ?thesis by (auto simp: check_file_changed_def Let_def)
  next
    case False
    with assms(1,2) i t2 fp show ?thesis
      by (simp add: check_file_changed_def Let_def stored_hash_update)
  qed
qed


lemma check_file_changed_keeps_switch:
  "enable_checksum (snd (check_file_changed env fp st)) = enable_checksum st"
  by (simp add: check_file_changed_def Let_def split: option.splits)

lemma has_file_changed_keeps_switch:
  "a_enable_checksum (snd (has_file_changed env fp st)) = a_enable_checksum st"
  by (simp add: has_file_changed_def Let_def split: option.splits)

lemma has_file_changed_first:
  assumes "a_enable_checksum st" "calculate_file_hash env fp = Some d" "length fp < MAX_PATH_LEN"
    "stored_hash (a_file_hashes st) fp = None"
  shows "fst (has_file_changed env fp st) = True"
    and "stored_hash (a_file_hashes (snd (has_file_changed env fp st))) q =
           (if q = fp then Some d else stored_hash (a_file_hashes st) q)"
proof -
  from assms(4) have n: "find_hash (a_file_hashes st) fp = None" by (simp add: stored_hash_None)
  from assms(2) have l: "length d = HASH_SIZE - 1" by (rule length_calculate_file_hash)
  from assms n show "fst (has_file_changed env fp st) = True"
    by (simp add: has_file_changed_def Let_def)
  from assms(3) have t: "strncpy (MAX_PATH_LEN - 1) fp = fp" by (simp add: strncpy_def)
  from l have t2: "strncpy (HASH_SIZE - 1) d = d" by (simp add: strncpy_def)
  from assms(1,2) n t t2
  show "stored_hash (a_file_hashes (snd (has_file_changed env fp st))) q =
           (if q = fp then Some d else stored_hash (a_file_hashes st) q)"
    by (simp add: has_file_changed_def Let_def stored_hash_append)
qed

lemma has_file_changed_later:
  assumes "a_enable_checksum st" "calculate_file_hash env fp = Some d"
    "stored_hash (a_file_hashes st) fp = Some h"
  shows "fst (has_file_changed env fp st) = (d \<noteq> h)"
    and "stored_hash (a_file_hashes (snd (has_file_changed env fp st))) q =
           (if q = fp then Some d else stored_hash (a_file_hashes st) q)"
    and "d = h \<Longrightarrow> snd (has_file_changed env fp st) = st"
proof -
  from assms(3) obtain i where i: "find_hash (a_file_hashes st) fp = Some i"
    "hash (a_file_hashes st ! i) = h" by (auto dest: stored_hash_SomeD)
  from assms(2) have l: "length d = HASH_SIZE - 1" by (rule length_calculate_file_hash)
  then have t2: "strncpy (HASH_SIZE - 1) d = d" by (simp add: strncpy_def)
  from assms(1,2) i show "fst (has_file_changed env fp st) = (d \<noteq> h)"
    by (auto simp: has_file_changed_def Let_def)
  from assms(1,2) i show "d = h \<Longrightarrow> snd (has_file_changed env fp st) = st"
    by (auto simp: has_file_changed_def Let_def)
  from find_hash_Some[OF i(1)] have fp: "filepath (a_file_hashes st ! i) = fp" by simp
  show "stored_hash (a_file_hashes (snd (has_file_changed env fp st))) q =
           (if q = fp then Some d else stored_hash (a_file_hashes st) q)"
  proof (cases "d = h")
    case True
    with assms(1,2,3) i show ?thesis by (auto simp: has_file_changed_def Let_def)
  next
    case False
    with assms(1,2) i t2 fp show ?thesis
      by (simp add: has_file_changed_def Let_def stored_hash_update)
  qed
qed

lemma check_file_changed_cases:
  assumes "enable_checksum st" "calculate_file_hash env fp = Some d" "length fp < MAX_PATH_LEN"
  shows "(stored_hash (file_hashes st) fp = None \<longrightarrow> fst (check_file_changed env fp st)) \<and>
         (\<forall>h. stored_hash (file_hashes st) fp = Some h \<longrightarrow>
            fst (check_file_changed env fp st) = (d \<noteq> h) \<and>
            (d = h \<longrightarrow> snd (check_file_changed env fp st) = st)) \<and>
         (\<forall>q. stored_hash (file_hashes (snd (check_file_changed env fp st))) q =
            (if q = fp then Some d else stored_hash (file_hashes st) q))"
proof (cases "stored_hash (file_hashes st) fp")
  case None
  with check_file_changed_first[OF assms None] show ?thesis by simp
next
  case (Some h)
  with check_file_changed_later[OF assms(1,2) Some] show ?thesis by simp
qed

lemma has_file_changed_cases:
  assumes "a_enable_checksum st" "calculate_file_hash env fp = Some d" "length fp < MAX_PATH_LEN"
  shows "(stored_hash (a_file_hashes st) fp = None \<longrightarrow> fst (has_file_changed env fp st)) \<and>
         (\<forall>h. stored_hash (a_file_hashes st) fp = Some h \<longrightarrow>
            fst (has_file_changed env fp st) = (d \<noteq> h) \<and>
            (d = h \<longrightarrow> snd (has_file_changed env fp st) = st)) \<and>
         (\<forall>q. stored_hash (a_file_hashes (snd (has_file_changed env fp st))) q =
            (if q = fp then Some d else stored_hash (a_file_hashes st) q))"
proof (cases "stored_hash (a_file_hashes st) fp")
  case None
  with has_file_changed_first[OF assms None] show ?thesis by simp
next
  case (Some h)
  with has_file_changed_later[OF assms(1,2) Some] show ?thesis by simp
qed

lemma snprintf_path_length: "length (snprintf MAX_PATH_LEN s) < MAX_PATH_LEN"
  by (simp add: snprintf_def MAX_PATH_LEN_def)

text \<open>
  Claim C1, for \<open>check_file_changed\<close> (monitor.c) and \<open>has_file_changed\<close>
  (advanced\_monitor.c), with checksums enabled and a file that can be read, so that a
  digest \<open>d\<close> is computed (every path a handler passes is shorter than
  \<open>MAX_PATH_LEN\<close>, lemma \<open>snprintf_path_length\<close>). The first call for a path, when no
  digest is stored for it, returns true. A later call returns true exactly when \<open>d\<close>
  differs from the stored digest, and when they are equal it returns false and leaves the
  whole state as it was. After either call the digest stored for the path is \<open>d\<close> and the
  digests of all other paths are as before. Hence a further call that computes the same
  digest (\<open>env'\<close>) returns false and changes nothing: a change is reported once.
\<close>

theorem change_detection_cache:
  assumes "enable_checksum st" and "a_enable_checksum sa"
    and "calculate_file_hash env fp = Some d"
    and "calculate_file_hash env' fp = Some d"
    and "length fp < MAX_PATH_LEN"
  shows
    "(stored_hash (file_hashes st) fp = None \<longrightarrow> fst (check_file_changed env fp st)) \<and>
     (\<forall>h. stored_hash (file_hashes st) fp = Some h \<longrightarrow>
        fst (check_file_changed env fp st) = (d \<noteq> h) \<and>
        (d = h \<longrightarrow> snd (check_file_changed env fp st) = st)) \<and>
     (\<forall>q. stored_hash (file_hashes (snd (check_file_changed env fp st))) q =
        (if q = fp then Some d else stored_hash (file_hashes st) q)) \<and>
     check_file_changed env' fp (snd (check_file_changed env fp st)) =
       (False, snd (check_file_changed env fp st)) \<and>
     (stored_hash (a_file_hashes sa) fp = None \<longrightarrow> fst (has_file_changed env fp sa)) \<and>
     (\<forall>h. stored_hash (a_file_hashes sa) fp = Some h \<longrightarrow>
        fst (has_file_changed env fp sa) = (d \<noteq> h) \<and>
        (d = h \<longrightarrow> snd (has_file_changed env fp sa) = sa)) \<and>
     (\<forall>q. stored_hash (a_file_hashes (snd (has_file_changed env fp sa))) q =
        (if q = fp then Some d else stored_hash (a_file_hashes sa) q)) \<and>
     has_file_changed env' fp (snd (has_file_changed env fp sa)) =
       (False, snd (has_file_changed env fp sa))"
proof -
  let ?st' = "snd (check_file_changed env fp st)"
  let ?sa' = "snd (has_file_changed env fp sa)"
  note m = check_file_changed_cases[OF assms(1,3,5)]
  note a = has_file_changed_cases[OF assms(2,3,5)]
  from m have sm: "stored_hash (file_hashes ?st') fp = Some d" by simp
  from a have sa: "stored_hash (a_file_hashes ?sa') fp = Some d" by simp
  from assms(1) have em: "enable_checksum ?st'" by (simp add: check_file_changed_keeps_switch)
  from assms(2) have ea: "a_enable_checksum ?sa'" by (simp add: has_file_changed_keeps_switch)
  from check_file_changed_later[OF em assms(4) sm]
  have m2: "check_file_changed env' fp ?st' = (False, ?st')" by (simp add: prod_eq_iff)
  from has_file_changed_later[OF ea assms(4) sa]
  have a2: "has_file_changed env' fp ?sa' = (False, ?sa')" by (simp add: prod_eq_iff)
  from m a m2 a2 show ?thesis by blast
qed

text \<open>
  At \<open>/w/a.txt\<close> with an empty cache: the first call reports a change, the second, on
  the same bytes, does not.
\<close>

theorem change_detection_cache_witness:
  "fst (check_file_changed env_abc ''/w/a.txt'' state0) \<and>
   check_file_changed env_abc ''/w/a.txt'' (snd (check_file_changed env_abc ''/w/a.txt'' state0)) =
     (False, snd (check_file_changed env_abc ''/w/a.txt'' state0)) \<and>
   fst (has_file_changed env_abc ''/w/a.txt'' adv0) \<and>
   has_file_changed env_abc ''/w/a.txt'' (snd (has_file_changed env_abc ''/w/a.txt'' adv0)) =
     (False, snd (has_file_changed env_abc ''/w/a.txt'' adv0))"
proof -
  obtain d where d: "calculate_file_hash env_abc ''/w/a.txt'' = Some d"
    by (simp add: calculate_file_hash_def env_abc_def)
  have e1: "enable_checksum state0" by (simp add: state0_def)
  have e2: "a_enable_checksum adv0" by (simp add: adv0_def)
  have l: "length ''/w/a.txt'' < MAX_PATH_LEN" by (simp add: MAX_PATH_LEN_def)
  have n1: "stored_hash (file_hashes state0) ''/w/a.txt'' = None"
    by (simp add: state0_def stored_hash_def)
  have n2: "stored_hash (a_file_hashes adv0) ''/w/a.txt'' = None"
    by (simp add: adv0_def stored_hash_def)
  from change_detection_cache[OF e1 e2 d d l] n1 n2 show ?thesis by blast
qed

subsection \<open>The log functions of monitor.c\<close>

lemma only_log_changed_refl: "only_log_changed st st"
  by (simp add: only_log_changed_def)

lemma only_log_changed_trans:
  "only_log_changed a b \<Longrightarrow> only_log_changed b c \<Longrightarrow> only_log_changed a c"
  by (simp add: only_log_changed_def)

lemma only_log_changed_fields:
  assumes "only_log_changed st st'"
  shows "mode st' = mode st" "recursive_mode st' = recursive_mode st"
    "watch_table st' = watch_table st" "watch_manager st' = watch_manager st"
    "file_hashes st' = file_hashes st" "hash_capacity st' = hash_capacity st"
    "enable_checksum st' = enable_checksum st" "enable_compression st' = enable_compression st"
    "file_extensions st' = file_extensions st" "stats st' = stats st"
  using assms by (simp_all add: only_log_changed_def)

lemma log_event_with_only_log:
  assumes "\<And>s. only_log_changed s (rot env s)"
  shows "only_log_changed st (log_event_with rot env message st)"
proof (cases "log_file st")
  case Null
  then show ?thesis by (simp add: log_event_with_def only_log_changed_def)
next
  case Closed
  then show ?thesis by (simp add: log_event_with_def only_log_changed_def)
next
  case Open
  let ?line = "''['' @ get_timestamp env @ ''] '' @ message @ [CHR 0x0A]"
  let ?content = "(case files st LOG_FILE of None \<Rightarrow> [] | Some c \<Rightarrow> c) @ ?line"
  let ?st1 = "st\<lparr>files := (files st)(LOG_FILE := Some ?content)\<rparr>"
  have a: "only_log_changed st ?st1" by (simp add: only_log_changed_def)
  have b: "only_log_changed ?st1 (rot env ?st1)" by (rule assms)
  from Open have "log_event_with rot env message st = ?st1 \<or>
      log_event_with rot env message st = rot env ?st1"
    by (simp add: log_event_with_def Let_def)
  with a only_log_changed_trans[OF a b] show ?thesis by auto
qed

lemma log_event_in_rotation_only_log:
  "only_log_changed st (log_event_in_rotation env message st)"
  unfolding log_event_in_rotation_def
  by (rule log_event_with_only_log) (rule only_log_changed_refl)

lemma compress_old_log_only_log: "only_log_changed st (compress_old_log env filename st)"
proof (cases "files st filename")
  case None
  then show ?thesis
    by (simp add: compress_old_log_def compress_old_log_with_def only_log_changed_refl)
next
  case (Some c)
  let ?gz = "snprintf MAX_PATH_LEN (filename @ ''.gz'')"
  let ?st1 = "st\<lparr>files := unlink filename ((files st)(?gz := Some (gzip env c)))\<rparr>"
  have a: "only_log_changed st ?st1" by (simp add: only_log_changed_def)
  from Some have "compress_old_log env filename st =
      log_event_in_rotation env (snprintf 512 (''[INFO] Compressed log file: '' @ ?gz)) ?st1"
    by (simp add: compress_old_log_def compress_old_log_with_def Let_def)
  with only_log_changed_trans[OF a log_event_in_rotation_only_log] show ?thesis by simp
qed

lemma rotate_log_file_only_log: "only_log_changed st (rotate_log_file env st)"
proof (cases "log_file st = Null")
  case True
  then show ?thesis
    by (simp add: rotate_log_file_def rotate_log_file_with_def only_log_changed_refl)
next
  case False
  let ?st1 = "st\<lparr>log_file := Closed, stream_misuse := (stream_misuse st \<or> log_file st = Closed)\<rparr>"
  let ?st2 = "?st1\<lparr>files := rename_file LOG_FILE (gen_name 0)
                (shift_generations (MAX_LOG_FILES - 1) (files ?st1))\<rparr>"
  let ?st3 = "when_c (enable_compression ?st2) (compress_old_log env (gen_name 0)) ?st2"
  let ?st4 = "?st3\<lparr>log_file := Open, files := fopen_append LOG_FILE (files ?st3)\<rparr>"
  have a: "only_log_changed st ?st2" by (simp add: only_log_changed_def)
  have b: "only_log_changed ?st2 ?st3"
    by (simp add: when_c_def only_log_changed_refl compress_old_log_only_log)
  have c: "only_log_changed ?st3 ?st4" by (simp add: only_log_changed_def)
  have d: "only_log_changed ?st4
      (log_event_in_rotation env ''[INFO] Log file rotated successfully'' ?st4)"
    by (rule log_event_in_rotation_only_log)
  from False have "rotate_log_file env st =
      log_event_in_rotation env ''[INFO] Log file rotated successfully'' ?st4"
    by (simp add: rotate_log_file_def rotate_log_file_with_def Let_def compress_old_log_def)
  with only_log_changed_trans[OF only_log_changed_trans[OF only_log_changed_trans[OF a b] c] d]
  show ?thesis by simp
qed

lemma log_event_only_log: "only_log_changed st (log_event env message st)"
  unfolding log_event_def
  by (rule log_event_with_only_log) (rule rotate_log_file_only_log)

lemmas log_event_fields = only_log_changed_fields[OF log_event_only_log]

text \<open>
  The functions satisfy the equations of the source: the \<open>log_event\<close> that
  \<open>rotate_log_file\<close> and \<open>compress_old_log\<close> call may be read as the full \<open>log_event\<close>.
\<close>

lemma log_event_with_not_open:
  "log_file st \<noteq> Open \<Longrightarrow> log_event_with rot env message st = log_event_with rot' env message st"
  by (cases "log_file st") (simp_all add: log_event_with_def)

lemma log_event_with_small:
  assumes "files st LOG_FILE = Some []" "length message \<le> 1000"
  shows "log_event_with rot env message st = log_event_with rot' env message st"
proof -
  let ?line = "''['' @ get_timestamp env @ ''] '' @ message @ [CHR 0x0A]"
  from assms(2) have "\<not> int (length ?line) > MAX_LOG_SIZE_MB * 1024 * 1024"
    by (simp add: get_timestamp_def MAX_LOG_SIZE_MB_def)
  with assms(1) show ?thesis
    by (cases "log_file st") (simp_all add: log_event_with_def Let_def)
qed

lemma gen_name_0: "gen_name 0 = ''monitor.log.0''"
  by (simp add: gen_name_def snprintf_def LOG_FILE_def dec_int_def digit_char_def MAX_PATH_LEN_def)

lemma gen_name_0_gz: "snprintf MAX_PATH_LEN (gen_name 0 @ ''.gz'') = ''monitor.log.0.gz''"
  by (simp add: gen_name_0 snprintf_def MAX_PATH_LEN_def)

lemma compress_old_log_unfold:
  assumes "log_file st \<noteq> Open"
  shows "compress_old_log env filename st = compress_old_log_with log_event env filename st"
proof (cases "files st filename")
  case None
  then show ?thesis by (simp add: compress_old_log_def compress_old_log_with_def)
next
  case (Some c)
  with assms show ?thesis
    unfolding compress_old_log_def compress_old_log_with_def log_event_def
      log_event_in_rotation_def Let_def
    by (simp add: log_event_with_not_open[of _ "\<lambda>env st. st" _ _ rotate_log_file])
qed

lemma compress_old_log_keeps_log_absent:
  assumes "files st LOG_FILE = None" "log_file st = Closed"
  shows "files (compress_old_log env (gen_name 0) st) LOG_FILE = None"
  using assms
  by (cases "files st (gen_name 0)")
     (simp_all add: compress_old_log_def compress_old_log_with_def Let_def
        log_event_in_rotation_def log_event_with_def unlink_def gen_name_0 LOG_FILE_def
        snprintf_def MAX_PATH_LEN_def)

lemma rename_log_absent: "rename_file LOG_FILE (gen_name 0) fs LOG_FILE = None"
  by (cases "fs LOG_FILE") (simp_all add: rename_file_def gen_name_0 LOG_FILE_def)

lemma compress_old_log_stream:
  "log_file st = Closed \<Longrightarrow> log_file (compress_old_log env filename st) = Closed"
  by (cases "files st filename")
     (simp_all add: compress_old_log_def compress_old_log_with_def Let_def
        log_event_in_rotation_def log_event_with_def)

lemma rotate_log_file_unfold:
  "rotate_log_file env st = rotate_log_file_with log_event env st"
proof (cases "log_file st = Null")
  case True
  then show ?thesis by (simp add: rotate_log_file_def rotate_log_file_with_def)
next
  case False
  let ?st1 = "st\<lparr>log_file := Closed, stream_misuse := (stream_misuse st \<or> log_file st = Closed)\<rparr>"
  let ?st2 = "?st1\<lparr>files := rename_file LOG_FILE (gen_name 0)
                (shift_generations (MAX_LOG_FILES - 1) (files ?st1))\<rparr>"
  let ?st3 = "when_c (enable_compression ?st2) (compress_old_log env (gen_name 0)) ?st2"
  let ?st4 = "?st3\<lparr>log_file := Open, files := fopen_append LOG_FILE (files ?st3)\<rparr>"
  have c: "log_file ?st2 = Closed" by simp
  have abs2: "files ?st2 LOG_FILE = None" by (simp add: rename_log_absent)
  have st3: "when_c (enable_compression ?st2) (compress_old_log_with log_event env (gen_name 0)) ?st2
      = ?st3"
    using compress_old_log_unfold[of ?st2 env "gen_name 0"] by (simp add: when_c_def)
  have abs3: "files ?st3 LOG_FILE = None"
    using compress_old_log_keeps_log_absent[OF abs2 c] abs2 by (simp add: when_c_def)
  then have new: "files ?st4 LOG_FILE = Some []" by (simp add: fopen_append_def)
  have l: "length ''[INFO] Log file rotated successfully'' \<le> 1000" by simp
  from False have "rotate_log_file_with log_event env st =
      log_event env ''[INFO] Log file rotated successfully'' ?st4"
    unfolding rotate_log_file_with_def Let_def st3 by simp
  also have "\<dots> = log_event_in_rotation env ''[INFO] Log file rotated successfully'' ?st4"
    unfolding log_event_def log_event_in_rotation_def
    by (rule log_event_with_small[OF new l])
  also from False have "\<dots> = rotate_log_file env st"
    by (simp add: rotate_log_file_def rotate_log_file_with_def Let_def compress_old_log_def)
  finally show ?thesis by simp
qed

subsection \<open>C3: events the filter rejects\<close>

lemma bump_total_events_fields:
  "files (bump_total_events st) = files st" "log_file (bump_total_events st) = log_file st"
  "file_extensions (bump_total_events st) = file_extensions st"
  "total_events (stats (bump_total_events st)) = total_events (stats st) + 1"
  by (simp_all add: bump_total_events_def)

text \<open>
  Claim C3, as stated, fails: \<open>handle_event_basic\<close> counts an event in \<open>total_events\<close>
  before it asks the filter. Here \<open>a.log\<close> is rejected by the allow-list \<open>txt\<close>, and the
  counter has moved from 0 to 1.
\<close>

theorem rejected_event_counted_counterexample:
  "\<not> should_monitor_file (file_extensions (state0\<lparr>file_extensions := [''txt'']\<rparr>)) ''a.log'' \<and>
   total_events (stats (state0\<lparr>file_extensions := [''txt'']\<rparr>)) = 0 \<and>
   total_events (stats (handle_event_basic env0 (event_on ''a.log'' IN_MODIFY) ''/w''
     (state0\<lparr>file_extensions := [''txt'']\<rparr>))) = 1"
  by (simp add: should_monitor_file_def state0_def stats0_def handle_event_basic_def
        bump_total_events_def event_on_def)

text \<open>
  Claim C3, amended. For every raw event with a name that \<open>should_monitor_file\<close> rejects,
  the three handlers of monitor.c append no log line and leave the files, the stream, the
  fingerprint cache and the basic watch table as they were, but the event is counted
  before the filter is asked: \<open>handle_event_basic\<close> and \<open>handle_event_advanced\<close> (the
  one handler that consults the fingerprint cache) add one to \<open>total_events\<close> and change
  nothing else; \<open>handle_event_enhanced\<close> adds one to the \<open>event_count\<close> of the event's
  watch and to \<open>total_events\<close> and updates \<open>max_events_per_path\<close> and
  \<open>most_active_path\<close>, and for a descriptor it does not know it logs a warning.
\<close>

theorem rejected_event_is_only_counted:
  assumes "len event > 0" and "\<not> should_monitor_file (file_extensions st) (name event)"
  shows
    "handle_event_basic env event watch_path st = bump_total_events st \<and>
     handle_event_advanced env event watch_path st = bump_total_events st \<and>
     file_hashes (handle_event_advanced env event watch_path st) = file_hashes st \<and>
     (\<forall>i. find_watch_by_wd (entries (watch_manager st)) (wd event) = Some i \<longrightarrow>
        (let st' = handle_event_enhanced env event st;
             e = entries (watch_manager st) ! i;
             n = event_count e + 1
         in files st' = files st \<and> log_file st' = log_file st \<and>
            stream_misuse st' = stream_misuse st \<and> file_hashes st' = file_hashes st \<and>
            watch_table st' = watch_table st \<and>
            total_events (stats st') = total_events (stats st) + 1 \<and>
            entries (watch_manager st') = (entries (watch_manager st))[i := e\<lparr>event_count := n\<rparr>] \<and>
            max_events_per_path (stats st') = max (max_events_per_path (stats st)) n \<and>
            most_active_path (stats st') =
              (if n > max_events_per_path (stats st) then strncpy (MAX_PATH_LEN - 1) (we_path e)
               else most_active_path (stats st)))) \<and>
     (find_watch_by_wd (entries (watch_manager st)) (wd event) = None \<longrightarrow>
        handle_event_enhanced env event st =
          log_event env ''[WARN] Event from unknown watch descriptor'' st)"
proof (intro conjI allI impI)
  from assms show "handle_event_basic env event watch_path st = bump_total_events st"
    by (simp add: handle_event_basic_def Let_def bump_total_events_fields)
next
  from assms show adv: "handle_event_advanced env event watch_path st = bump_total_events st"
    by (simp add: handle_event_advanced_def Let_def bump_total_events_fields)
  show "file_hashes (handle_event_advanced env event watch_path st) = file_hashes st"
    unfolding adv by (simp add: bump_total_events_def)
next
  fix i
  assume i: "find_watch_by_wd (entries (watch_manager st)) (wd event) = Some i"
  let ?e = "entries (watch_manager st) ! i"
  let ?n = "event_count ?e + 1"
  show "let st' = handle_event_enhanced env event st; e = ?e; n = event_count e + 1
        in files st' = files st \<and> log_file st' = log_file st \<and>
           stream_misuse st' = stream_misuse st \<and> file_hashes st' = file_hashes st \<and>
           watch_table st' = watch_table st \<and>
           total_events (stats st') = total_events (stats st) + 1 \<and>
           entries (watch_manager st') = (entries (watch_manager st))[i := e\<lparr>event_count := n\<rparr>] \<and>
           max_events_per_path (stats st') = max (max_events_per_path (stats st)) n \<and>
           most_active_path (stats st') =
             (if n > max_events_per_path (stats st) then strncpy (MAX_PATH_LEN - 1) (we_path e)
              else most_active_path (stats st))"
  proof (cases "?n > max_events_per_path (stats st)")
    case True
    then have "max (max_events_per_path (stats st)) ?n = ?n"
      by (simp add: max.absorb2 less_imp_le)
    with True assms i show ?thesis
      by (simp add: handle_event_enhanced_def Let_def when_c_def bump_total_events_def)
  next
    case False
    then have "max (max_events_per_path (stats st)) ?n = max_events_per_path (stats st)"
      by (simp add: max.absorb1 not_less)
    with False assms i show ?thesis
      by (simp add: handle_event_enhanced_def Let_def when_c_def bump_total_events_def)
  qed
next
  assume "find_watch_by_wd (entries (watch_manager st)) (wd event) = None"
  then show "handle_event_enhanced env event st =
      log_event env ''[WARN] Event from unknown watch descriptor'' st"
    by (simp add: handle_event_enhanced_def)
qed

text \<open>
  \<open>a.log\<close> is modified under \<open>/w\<close> while only \<open>txt\<close> is monitored: the basic and the
  advanced handler count the event and leave the empty cache empty, the enhanced handler
  also counts it for the watch and makes \<open>/w\<close> the most active path.
\<close>

theorem rejected_event_is_only_counted_witness:
  "handle_event_basic env0 (event_on ''a.log'' IN_MODIFY) ''/w'' enhanced1 =
     bump_total_events enhanced1 \<and>
   handle_event_advanced env_abc (event_on ''a.log'' IN_MODIFY) ''/w''
     (state0\<lparr>mode := MODE_ADVANCED, file_extensions := [''txt'']\<rparr>) =
     bump_total_events (state0\<lparr>mode := MODE_ADVANCED, file_extensions := [''txt'']\<rparr>) \<and>
   file_hashes (handle_event_advanced env_abc (event_on ''a.log'' IN_MODIFY) ''/w''
     (state0\<lparr>mode := MODE_ADVANCED, file_extensions := [''txt'']\<rparr>)) = [] \<and>
   files (handle_event_enhanced env0 (event_on ''a.log'' IN_MODIFY) enhanced1) = files enhanced1 \<and>
   total_events (stats (handle_event_enhanced env0 (event_on ''a.log'' IN_MODIFY) enhanced1)) = 1 \<and>
   max_events_per_path (stats (handle_event_enhanced env0 (event_on ''a.log'' IN_MODIFY) enhanced1)) = 1 \<and>
   most_active_path (stats (handle_event_enhanced env0 (event_on ''a.log'' IN_MODIFY) enhanced1)) = ''/w''"
proof -
  have l: "len (event_on ''a.log'' IN_MODIFY) > 0" by (simp add: event_on_def)
  have r: "\<not> should_monitor_file (file_extensions enhanced1) (name (event_on ''a.log'' IN_MODIFY))"
    by (simp add: should_monitor_file_def enhanced1_def event_on_def)
  have f: "find_watch_by_wd (entries (watch_manager enhanced1)) (wd (event_on ''a.log'' IN_MODIFY))
      = Some 0"
    by (simp add: enhanced1_def event_on_def)
  note t = rejected_event_is_only_counted[OF l r, of env0 "''/w''"]
  from t have b: "handle_event_basic env0 (event_on ''a.log'' IN_MODIFY) ''/w'' enhanced1 =
      bump_total_events enhanced1" by blast
  have ra: "\<not> should_monitor_file
      (file_extensions (state0\<lparr>mode := MODE_ADVANCED, file_extensions := [''txt'']\<rparr>))
      (name (event_on ''a.log'' IN_MODIFY))"
    by (simp add: should_monitor_file_def event_on_def)
  note ta = rejected_event_is_only_counted[OF l ra, of env_abc "''/w''"]
  from ta have a1: "handle_event_advanced env_abc (event_on ''a.log'' IN_MODIFY) ''/w''
      (state0\<lparr>mode := MODE_ADVANCED, file_extensions := [''txt'']\<rparr>) =
      bump_total_events (state0\<lparr>mode := MODE_ADVANCED, file_extensions := [''txt'']\<rparr>)"
    by blast
  from ta have "file_hashes (handle_event_advanced env_abc (event_on ''a.log'' IN_MODIFY) ''/w''
      (state0\<lparr>mode := MODE_ADVANCED, file_extensions := [''txt'']\<rparr>)) =
      file_hashes (state0\<lparr>mode := MODE_ADVANCED, file_extensions := [''txt'']\<rparr>)"
    by blast
  then have a2: "file_hashes (handle_event_advanced env_abc (event_on ''a.log'' IN_MODIFY) ''/w''
      (state0\<lparr>mode := MODE_ADVANCED, file_extensions := [''txt'']\<rparr>)) = []"
    by (simp add: state0_def)
  have v: "event_count (entries (watch_manager enhanced1) ! 0) = 0"
    "we_path (entries (watch_manager enhanced1) ! 0) = ''/w''"
    "max_events_per_path (stats enhanced1) = 0" "total_events (stats enhanced1) = 0"
    by (simp_all add: enhanced1_def state0_def stats0_def)
  from t f have
    "let st' = handle_event_enhanced env0 (event_on ''a.log'' IN_MODIFY) enhanced1;
         e = entries (watch_manager enhanced1) ! 0;
         n = event_count e + 1
     in files st' = files enhanced1 \<and>
        total_events (stats st') = total_events (stats enhanced1) + 1 \<and>
        max_events_per_path (stats st') = max (max_events_per_path (stats enhanced1)) n \<and>
        most_active_path (stats st') =
          (if n > max_events_per_path (stats enhanced1)
           then strncpy (MAX_PATH_LEN - 1) (we_path e)
           else most_active_path (stats enhanced1))"
    by (simp add: Let_def)
  with b a1 a2 v show ?thesis
    by (simp add: Let_def strncpy_def MAX_PATH_LEN_def)
qed

subsection \<open>C4: the queue-overflow marker\<close>

text \<open>
  Claim C4, as stated, fails: the kernel's overflow marker (mask \<open>IN_Q_OVERFLOW\<close>,
  descriptor -1, no name) leaves the state of main.c as it was, the standard output and
  the log included, and in monitor.c's basic mode it leaves the log file and the stream as
  they were: no entry says that events may have been lost.
\<close>

theorem overflow_marker_silent_counterexample:
  "has_flag (mask overflow_event) IN_Q_OVERFLOW \<and>
   m_dispatch env0 overflow_event main0 = main0 \<and>
   m_handle_event env0 overflow_event ''/w'' main0 = main0 \<and>
   dispatch env0 overflow_event state0 = state0 \<and>
   files (handle_event_basic env0 overflow_event ''/w'' state0) = files state0"
  by (simp add: overflow_event_def has_flag_def IN_Q_OVERFLOW_def m_dispatch_def main0_def
        m_handle_event_def dispatch_def state0_def handle_event_basic_def
        bump_total_events_def)

text \<open>
  Claim C4, amended. An event without a name, as the queue-overflow marker is, produces
  no log entry: \<open>handle_event\<close> of main.c and the dispatch of main.c return the state as
  it was, \<open>handle_event_basic\<close> of monitor.c only adds one to \<open>total_events\<close>, and the
  dispatch of monitor.c in basic mode leaves the log file and the stream as they were.
  The overflow is dropped without a notice.
\<close>

theorem nameless_event_leaves_no_log_entry:
  assumes "len event = 0"
  shows "m_handle_event env event watch_path sm = sm \<and>
         m_dispatch env event sm = sm \<and>
         handle_event_basic env event watch_path st = bump_total_events st \<and>
         (mode st = MODE_BASIC \<longrightarrow>
            files (dispatch env event st) = files st \<and>
            log_file (dispatch env event st) = log_file st)"
  using assms
  by (auto simp: m_handle_event_def m_dispatch_def handle_event_basic_def dispatch_def
        bump_total_events_fields Let_def split: option.splits)

theorem nameless_event_leaves_no_log_entry_witness:
  "m_handle_event env0 overflow_event ''/w'' main0 = main0 \<and>
   m_dispatch env0 overflow_event main0 = main0 \<and>
   handle_event_basic env0 overflow_event ''/w'' state0 = bump_total_events state0 \<and>
   files (dispatch env0 overflow_event state0) = files state0 \<and>
   log_file (dispatch env0 overflow_event state0) = log_file state0"
proof -
  have l: "len overflow_event = 0" by (simp add: overflow_event_def)
  have m: "mode state0 = MODE_BASIC" by (simp add: state0_def)
  from nameless_event_leaves_no_log_entry[OF l, of env0 "''/w''" main0 state0] m
  show ?thesis by simp
qed

subsection \<open>C5: growth of the watch registry\<close>

lemma add_watch_dynamic_step:
  assumes "length (entries (watch_manager st)) < 2 ^ 63"
  shows
    "capacity (watch_manager (snd (add_watch_dynamic env r path st))) =
       (if capacity (watch_manager st) \<le> length (entries (watch_manager st)) \<and> realloc_ok r
        then 2 * capacity (watch_manager st) else capacity (watch_manager st))"
    and "memory_reallocations (stats (snd (add_watch_dynamic env r path st))) =
       (if capacity (watch_manager st) \<le> length (entries (watch_manager st)) \<and> realloc_ok r
        then memory_reallocations (stats st) + 1 else memory_reallocations (stats st))"
    and "entries (watch_manager (snd (add_watch_dynamic env r path st))) =
       (if (capacity (watch_manager st) \<le> length (entries (watch_manager st)) \<longrightarrow> realloc_ok r) \<and>
           inotify_add_watch r \<noteq> - 1
        then entries (watch_manager st) @
               [\<lparr>we_wd = inotify_add_watch r, we_path = strncpy (MAX_PATH_LEN - 1) path,
                 added_time = time_now r, event_count = 0\<rparr>]
        else entries (watch_manager st))"
    and "fst (add_watch_dynamic env r path st) =
       (if capacity (watch_manager st) \<le> length (entries (watch_manager st)) \<longrightarrow> realloc_ok r
        then inotify_add_watch r else - 1)"
proof -
  have m: "capacity (watch_manager st) \<le> length (entries (watch_manager st)) \<Longrightarrow>
      (capacity (watch_manager st) * 2) mod 2 ^ 64 = 2 * capacity (watch_manager st)"
    using assms by simp
  show "capacity (watch_manager (snd (add_watch_dynamic env r path st))) =
       (if capacity (watch_manager st) \<le> length (entries (watch_manager st)) \<and> realloc_ok r
        then 2 * capacity (watch_manager st) else capacity (watch_manager st))"
    using m
    by (simp add: add_watch_dynamic_def Let_def when_c_def WATCH_GROWTH_FACTOR_def
          log_event_fields)
  show "memory_reallocations (stats (snd (add_watch_dynamic env r path st))) =
       (if capacity (watch_manager st) \<le> length (entries (watch_manager st)) \<and> realloc_ok r
        then memory_reallocations (stats st) + 1 else memory_reallocations (stats st))"
    by (simp add: add_watch_dynamic_def Let_def when_c_def log_event_fields)
  show "entries (watch_manager (snd (add_watch_dynamic env r path st))) =
       (if (capacity (watch_manager st) \<le> length (entries (watch_manager st)) \<longrightarrow> realloc_ok r) \<and>
           inotify_add_watch r \<noteq> - 1
        then entries (watch_manager st) @
               [\<lparr>we_wd = inotify_add_watch r, we_path = strncpy (MAX_PATH_LEN - 1) path,
                 added_time = time_now r, event_count = 0\<rparr>]
        else entries (watch_manager st))"
    by (simp add: add_watch_dynamic_def Let_def when_c_def log_event_fields)
  show "fst (add_watch_dynamic env r path st) =
       (if capacity (watch_manager st) \<le> length (entries (watch_manager st)) \<longrightarrow> realloc_ok r
        then inotify_add_watch r else - 1)"
    by (simp add: add_watch_dynamic_def Let_def when_c_def)
qed

lemma register_all_growth:
  "length (entries (watch_manager st)) + length ops < 2 ^ 63 \<Longrightarrow>
   \<exists>k. capacity (watch_manager (register_all env ops st)) = capacity (watch_manager st) * 2 ^ k \<and>
       memory_reallocations (stats (register_all env ops st)) =
         memory_reallocations (stats st) + of_nat k"
proof (induction ops arbitrary: st)
  case Nil
  show ?case by (rule exI[of _ 0]) simp
next
  case (Cons op ops)
  obtain r path where op: "op = (r, path)" by (cases op)
  let ?st1 = "snd (add_watch_dynamic env r path st)"
  from Cons.prems have b: "length (entries (watch_manager st)) < 2 ^ 63" by simp
  note s = add_watch_dynamic_step[OF b, of env r path]
  from s(3) have "length (entries (watch_manager ?st1)) \<le> Suc (length (entries (watch_manager st)))"
    by (simp split: if_splits)
  with Cons.prems have "length (entries (watch_manager ?st1)) + length ops < 2 ^ 63" by simp
  from Cons.IH[OF this] obtain k where
    k: "capacity (watch_manager (register_all env ops ?st1)) = capacity (watch_manager ?st1) * 2 ^ k"
       "memory_reallocations (stats (register_all env ops ?st1)) =
          memory_reallocations (stats ?st1) + of_nat k" by blast
  show ?case
  proof (cases "capacity (watch_manager st) \<le> length (entries (watch_manager st)) \<and> realloc_ok r")
    case True
    with s(1,2) k op show ?thesis
      by (intro exI[of _ "Suc k"]) simp
  next
    case False
    with s(1,2) k op show ?thesis
      by (intro exI[of _ k]) auto
  qed
qed

text \<open>
  Claim C5, as stated, fails for the basic registry: with 1024 watches in the table,
  \<open>add_watch_basic\<close> refuses a directory that the kernel would have accepted (with
  descriptor 7) and the table stays as it is.
\<close>

theorem basic_registry_fixed_cap_counterexample:
  "inotify_add_watch os_ok = 7 \<and>
   fst (add_watch_basic env0 os_ok ''/w/d'' (state0\<lparr>watch_table := replicate 1024 (1, ''/w'')\<rparr>)) = - 1 \<and>
   watch_table (snd (add_watch_basic env0 os_ok ''/w/d''
      (state0\<lparr>watch_table := replicate 1024 (1, ''/w'')\<rparr>))) = replicate 1024 (1, ''/w'')"
  by (simp add: add_watch_basic_def os_ok_def log_event_fields)

text \<open>
  Claim C5, amended. In the enhanced registry (\<open>add_watch_dynamic\<close>), over every run of
  registrations that keeps the number of watches below \<open>2 ^ 63\<close>, the capacity never
  shrinks: it ends as the initial capacity times \<open>2 ^ k\<close>, where \<open>k\<close> is the number by which
  the reallocation counter has advanced. In one registration that finds the storage full,
  a successful \<open>realloc\<close> doubles the capacity and adds exactly one to the counter, and the
  registration then goes on to the kernel; a registration that finds room leaves both as
  they were. The basic registry (\<open>add_watch_basic\<close>) is a table of 1024 slots: a
  registration that finds it full fails and changes no slot.
\<close>

theorem registry_growth:
  assumes "length (entries (watch_manager st)) + length ops < 2 ^ 63"
  shows
    "capacity (watch_manager st) \<le> capacity (watch_manager (register_all env ops st)) \<and>
     (\<exists>k. capacity (watch_manager (register_all env ops st)) = capacity (watch_manager st) * 2 ^ k \<and>
          memory_reallocations (stats (register_all env ops st)) =
            memory_reallocations (stats st) + of_nat k) \<and>
     (capacity (watch_manager st) \<le> length (entries (watch_manager st)) \<and> realloc_ok r \<longrightarrow>
        capacity (watch_manager (snd (add_watch_dynamic env r path st))) =
          2 * capacity (watch_manager st) \<and>
        memory_reallocations (stats (snd (add_watch_dynamic env r path st))) =
          memory_reallocations (stats st) + 1 \<and>
        fst (add_watch_dynamic env r path st) = inotify_add_watch r) \<and>
     (length (entries (watch_manager st)) < capacity (watch_manager st) \<longrightarrow>
        capacity (watch_manager (snd (add_watch_dynamic env r path st))) =
          capacity (watch_manager st) \<and>
        memory_reallocations (stats (snd (add_watch_dynamic env r path st))) =
          memory_reallocations (stats st)) \<and>
     (length (watch_table sb) \<ge> 1024 \<longrightarrow>
        fst (add_watch_basic env r path sb) = - 1 \<and>
        watch_table (snd (add_watch_basic env r path sb)) = watch_table sb)"
proof -
  from assms have b: "length (entries (watch_manager st)) < 2 ^ 63" by simp
  note s = add_watch_dynamic_step[OF b, of env r path]
  from register_all_growth[OF assms, of env] obtain k where
    k: "capacity (watch_manager (register_all env ops st)) = capacity (watch_manager st) * 2 ^ k"
       "memory_reallocations (stats (register_all env ops st)) =
          memory_reallocations (stats st) + of_nat k" by blast
  from k(1) have mono: "capacity (watch_manager st) \<le> capacity (watch_manager (register_all env ops st))"
    by simp
  have basic: "length (watch_table sb) \<ge> 1024 \<longrightarrow>
        fst (add_watch_basic env r path sb) = - 1 \<and>
        watch_table (snd (add_watch_basic env r path sb)) = watch_table sb"
    by (simp add: add_watch_basic_def log_event_fields)
  from mono k s basic show ?thesis by auto
qed

text \<open>
  A registry of 1024 slots, all taken: the first of two registrations doubles the
  capacity to 2048 and moves the counter to 1, the second finds room and changes neither.
\<close>

theorem registry_growth_witness:
  "capacity (watch_manager (register_all env0 [(os_ok, ''/w/a''), (os_ok, ''/w/b'')] full1)) = 2048 \<and>
   memory_reallocations (stats (register_all env0 [(os_ok, ''/w/a''), (os_ok, ''/w/b'')] full1)) = 1 \<and>
   capacity (watch_manager (snd (add_watch_dynamic env0 os_ok ''/w/a'' full1))) = 2048 \<and>
   memory_reallocations (stats (snd (add_watch_dynamic env0 os_ok ''/w/a'' full1))) = 1 \<and>
   fst (add_watch_dynamic env0 os_ok ''/w/a'' full1) = 7 \<and>
   fst (add_watch_basic env0 os_ok ''/w/a'' (state0\<lparr>watch_table := replicate 1024 (1, ''/w'')\<rparr>)) = - 1"
proof -
  have a: "length (entries (watch_manager full1)) + length [(os_ok, ''/w/a''), (os_ok, ''/w/b'')] < 2 ^ 63"
    by (simp add: full1_def)
  have c: "capacity (watch_manager full1) = 1024" "length (entries (watch_manager full1)) = 1024"
    "memory_reallocations (stats full1) = 0" "realloc_ok os_ok" "inotify_add_watch os_ok = 7"
    by (simp_all add: full1_def state0_def stats0_def os_ok_def INITIAL_WATCH_CAPACITY_def)
  have l: "length (watch_table (state0\<lparr>watch_table := replicate 1024 (1, ''/w'')\<rparr>)) \<ge> 1024"
    by simp
  note t = registry_growth[OF a, of env0 os_ok "''/w/a''"
      "state0\<lparr>watch_table := replicate 1024 (1, ''/w'')\<rparr>"]
  from t c have step: "capacity (watch_manager (snd (add_watch_dynamic env0 os_ok ''/w/a'' full1))) = 2048"
    "memory_reallocations (stats (snd (add_watch_dynamic env0 os_ok ''/w/a'' full1))) = 1"
    "fst (add_watch_dynamic env0 os_ok ''/w/a'' full1) = 7"
    by simp_all
  from t l have basic: "fst (add_watch_basic env0 os_ok ''/w/a''
      (state0\<lparr>watch_table := replicate 1024 (1, ''/w'')\<rparr>)) = - 1"
    by blast
  have b1: "length (entries (watch_manager full1)) < 2 ^ 63" by (simp add: full1_def)
  note s1 = add_watch_dynamic_step[OF b1, of env0 os_ok "''/w/a''"]
  have e1: "length (entries (watch_manager (snd (add_watch_dynamic env0 os_ok ''/w/a'' full1)))) = 1025"
    using s1(3) c by simp
  then have b2: "length (entries (watch_manager (snd (add_watch_dynamic env0 os_ok ''/w/a'' full1))))
      < 2 ^ 63" by simp
  note s2 = add_watch_dynamic_step[OF b2, of env0 os_ok "''/w/b''"]
  have run: "capacity (watch_manager (register_all env0 [(os_ok, ''/w/a''), (os_ok, ''/w/b'')] full1)) = 2048"
    "memory_reallocations (stats (register_all env0 [(os_ok, ''/w/a''), (os_ok, ''/w/b'')] full1)) = 1"
    using s2(1,2) step e1 by simp_all
  from step basic run show ?thesis by simp
qed

subsection \<open>C9: one domain event per flag\<close>

lemma report_flags_attrib:
  "report_flags env install modified IN_ATTRIB full_path st = st"
  by (simp add: report_flags_def when_c_def has_flag_def Let_def IN_ATTRIB_def IN_CREATE_def
        IN_DELETE_def IN_MODIFY_def IN_MOVED_FROM_def IN_MOVED_TO_def IN_OPEN_def IN_CLOSE_def
        IN_CLOSE_WRITE_def IN_CLOSE_NOWRITE_def)

lemma attrib_unreported_in_monitor_c:
  "mask event = IN_ATTRIB \<Longrightarrow>
   handle_event_basic env event watch_path st = bump_total_events st \<and>
   handle_event_advanced env event watch_path st = bump_total_events st"
  by (simp add: handle_event_basic_def handle_event_advanced_def Let_def report_flags_attrib)

lemma main_reports_attribute_change:
  "m_log_file (m_handle_event env0 (event_on ''a.txt'' IN_ATTRIB) ''/w'' main0) =
     Some [''[2024-01-01 00:00:00] Attribute changed: /w/a.txt'']"
  by (simp add: m_handle_event_def event_on_def main0_def env0_def should_monitor_file_def
        m_LOG_FILE_def m_CONFIG_FILE_def when_c_def has_flag_def Let_def m_log_event_def
        snprintf_def MAX_PATH_LEN_def IN_ATTRIB_def IN_CREATE_def IN_DELETE_def IN_MODIFY_def
        IN_MOVED_FROM_def IN_MOVED_TO_def IN_OPEN_def IN_CLOSE_WRITE_def)

text \<open>
  Claim C9 at the flag \<open>IN_ATTRIB\<close>: the attributes of \<open>/w/a.txt\<close> change, the name
  passes the filter, and \<open>handle_event_basic\<close> of monitor.c only counts the event and
  leaves the log as it was, where \<open>handle_event\<close> of main.c prints and logs
  \<open>Attribute changed\<close> (lemma \<open>main_reports_attribute_change\<close>).
\<close>

theorem attribute_change_unreported:
  "has_flag (mask (event_on ''a.txt'' IN_ATTRIB)) IN_ATTRIB \<and>
   should_monitor_file (file_extensions state0) ''a.txt'' \<and>
   handle_event_basic env0 (event_on ''a.txt'' IN_ATTRIB) ''/w'' state0 =
     bump_total_events state0 \<and>
   files (handle_event_basic env0 (event_on ''a.txt'' IN_ATTRIB) ''/w'' state0) = files state0"
proof -
  have a: "has_flag (mask (event_on ''a.txt'' IN_ATTRIB)) IN_ATTRIB"
    by (simp add: event_on_def has_flag_def IN_ATTRIB_def)
  have b: "should_monitor_file (file_extensions state0) ''a.txt''"
    by (simp add: state0_def should_monitor_file_def)
  have c: "handle_event_basic env0 (event_on ''a.txt'' IN_ATTRIB) ''/w'' state0 =
      bump_total_events state0"
    by (simp add: attrib_unreported_in_monitor_c event_on_def)
  from a b c show ?thesis by (simp add: bump_total_events_fields)
qed

subsection \<open>C6: the monitor's own files\<close>

lemma own_files_excluded_in_advanced_monitor_c:
  "name event = a_LOG_FILE \<or> name event = a_CONFIG_FILE \<or> name event = a_STATS_FILE \<Longrightarrow>
   a_handle_event env event watch_path st = st"
  by (auto simp: a_handle_event_def)

text \<open>
  Claim C6 at the log file's own name: \<open>monitor.log\<close> is opened in the watched directory
  while no extension is configured, and \<open>handle_event_advanced\<close> of monitor.c appends a
  line about it to that very log.
\<close>

theorem own_log_file_reported:
  "files (handle_event_advanced env0 (event_on LOG_FILE IN_OPEN) ''/w''
            (state0\<lparr>mode := MODE_ADVANCED\<rparr>)) LOG_FILE =
     Some (''[2024-01-01 00:00:00] Opened: /w/monitor.log'' @ [CHR 0x0A])"
  by (simp add: handle_event_advanced_def event_on_def state0_def stats0_def env0_def
        bump_total_events_def should_monitor_file_def report_flags_def when_c_def has_flag_def
        Let_def log_event_def log_event_with_def get_timestamp_def LOG_FILE_def
        snprintf_def MAX_PATH_LEN_def MAX_LOG_SIZE_MB_def IN_CREATE_def IN_DELETE_def
        IN_MODIFY_def IN_MOVED_FROM_def IN_MOVED_TO_def IN_OPEN_def IN_CLOSE_def
        IN_CLOSE_WRITE_def IN_CLOSE_NOWRITE_def)

subsection \<open>C8: rotation\<close>

lemma gen_names:
  "gen_name 1 = ''monitor.log.1''" "gen_name 2 = ''monitor.log.2''"
  "gen_name 3 = ''monitor.log.3''" "gen_name 4 = ''monitor.log.4''"
  "gen_name 5 = ''monitor.log.5''" "gen_name 6 = ''monitor.log.6''"
  "gen_name 7 = ''monitor.log.7''" "gen_name 8 = ''monitor.log.8''"
  "gen_name 9 = ''monitor.log.9''"
  by (simp_all add: gen_name_def snprintf_def LOG_FILE_def dec_int_def digit_char_def
        MAX_PATH_LEN_def)

lemma shift_generations_nothing:
  "(\<And>i. i < k \<Longrightarrow> fs (gen_name i) = None) \<Longrightarrow> shift_generations k fs = fs"
  by (induction k) (simp_all add: Let_def)

lemma gen_name_prefix: "i < 10 \<Longrightarrow> length (gen_name i) = 13"
  by (simp add: gen_name_def snprintf_def LOG_FILE_def dec_int_def MAX_PATH_LEN_def)

text \<open>
  Claim C8 with compression enabled, as it is by default: the log is rotated a second
  time. The shifting loop finds no file \<open>monitor.log.0\<close>, since the first rotation left only
  \<open>monitor.log.0.gz\<close>; the new generation is compressed over that file, and the older
  generation is lost, not moved to slot 1. The notice of the compression is written
  through the stream that \<open>rotate_log_file\<close> has closed.
\<close>

theorem rotation_overwrites_compressed_generation:
  "files rotated_once ''monitor.log.0.gz'' = Some ''gz:old'' \<and>
   files (rotate_log_file env0 rotated_once) =
     (\<lambda>n. if n = ''monitor.log''
           then Some (''[2024-01-01 00:00:00] [INFO] Log file rotated successfully'' @ [CHR 0x0A])
           else if n = ''monitor.log.0.gz'' then Some ''gz:new'' else None) \<and>
   stream_misuse (rotate_log_file env0 rotated_once)"
proof -
  let ?F = "\<lambda>n. if n = ''monitor.log'' then Some ''new''
                else if n = ''monitor.log.0.gz'' then Some ''gz:old'' else None"
  have none: "?F (gen_name i) = None" if "i < 9" for i
  proof -
    from that have "length (gen_name i) = 13" by (simp add: gen_name_prefix)
    then have "gen_name i \<noteq> ''monitor.log''" "gen_name i \<noteq> ''monitor.log.0.gz''" by auto
    then show ?thesis by simp
  qed
  have "shift_generations 9 ?F = ?F"
    by (rule shift_generations_nothing) (rule none)
  then have sh: "shift_generations (MAX_LOG_FILES - Suc 0) ?F = ?F"
    by (simp add: MAX_LOG_FILES_def)
  have f: "files (rotate_log_file env0 rotated_once) =
     (\<lambda>n. if n = ''monitor.log''
           then Some (''[2024-01-01 00:00:00] [INFO] Log file rotated successfully'' @ [CHR 0x0A])
           else if n = ''monitor.log.0.gz'' then Some ''gz:new'' else None)"
    unfolding rotate_log_file_def rotate_log_file_with_def Let_def
    by (rule ext)
       (simp add: sh gen_name_0 rotated_once_def state0_def env0_def rename_file_def LOG_FILE_def
          when_c_def compress_old_log_with_def log_event_in_rotation_def log_event_with_def
          unlink_def fopen_append_def get_timestamp_def snprintf_def MAX_PATH_LEN_def
          MAX_LOG_SIZE_MB_def Let_def)
  have m: "stream_misuse (rotate_log_file env0 rotated_once)"
    unfolding rotate_log_file_def rotate_log_file_with_def Let_def
    by (simp add: sh gen_name_0 rotated_once_def state0_def env0_def rename_file_def LOG_FILE_def
          when_c_def compress_old_log_with_def log_event_in_rotation_def log_event_with_def
          unlink_def fopen_append_def get_timestamp_def snprintf_def MAX_PATH_LEN_def
          MAX_LOG_SIZE_MB_def Let_def)
  have o: "files rotated_once ''monitor.log.0.gz'' = Some ''gz:old''"
    by (simp add: rotated_once_def)
  from o f m show ?thesis by simp
qed

text \<open>
  With compression disabled the rotation shifts: the log becomes generation 0, each
  generation \<open>j - 1\<close> up to 7 becomes generation \<open>j\<close>, and what generation 8 held is
  discarded (lemma \<open>rotation_without_compression\<close>). An append that takes the log past
  the ceiling runs one rotation (lemma \<open>log_event_rotates_once\<close>).
\<close>

lemma gen_name_digit: "i < 10 \<Longrightarrow> gen_name i = ''monitor.log.'' @ [''0123456789'' ! i]"
  by (simp add: gen_name_def snprintf_def LOG_FILE_def dec_int_def digit_char_def MAX_PATH_LEN_def)

lemma gen_name_inj: "i < 10 \<Longrightarrow> j < 10 \<Longrightarrow> gen_name i = gen_name j \<longleftrightarrow> i = j"
proof -
  assume b: "i < 10" "j < 10"
  have d: "distinct ''0123456789''" by simp
  from b have "''0123456789'' ! i = ''0123456789'' ! j \<longleftrightarrow> i = j"
    by (intro nth_eq_iff_index_eq[OF d]) simp_all
  with b show ?thesis by (simp add: gen_name_digit)
qed

lemma shift_generations_other:
  "(\<And>i. i \<le> k \<Longrightarrow> n \<noteq> gen_name i) \<Longrightarrow> shift_generations k fs n = fs n"
proof (induction k arbitrary: fs)
  case 0
  show ?case by simp
next
  case (Suc k)
  from Suc.prems[of k] Suc.prems[of "Suc k"] have ne: "n \<noteq> gen_name k" "n \<noteq> gen_name (Suc k)"
    by simp_all
  have "shift_generations k fs' n = fs' n" for fs'
    by (rule Suc.IH) (simp add: Suc.prems)
  with ne show ?case
    by (simp add: Let_def rename_file_def unlink_def split: option.splits)
qed

lemma shift_generations_vacant:
  assumes "k \<le> 8" "fs (gen_name k) = None" "j \<le> 9"
  shows "shift_generations k fs (gen_name j) =
           (if j = 0 then (if k = 0 then fs (gen_name 0) else None)
            else if j \<le> k then fs (gen_name (j - 1)) else fs (gen_name j))"
  using assms
proof (induction k arbitrary: fs)
  case 0
  then show ?case by simp
next
  case (Suc k)
  define fs' where "fs' = (if fs (gen_name k) \<noteq> None
              then rename_file (gen_name k) (gen_name (Suc k)) fs else fs)"
  from Suc.prems have k: "k < 10" "Suc k < 10" "j < 10" "Suc k \<noteq> MAX_LOG_FILES - 1" "k \<le> 8"
    by (simp_all add: MAX_LOG_FILES_def)
  then have sh: "shift_generations (Suc k) fs = shift_generations k fs'"
    unfolding fs'_def by (simp add: Let_def)
  from k have d: "gen_name k \<noteq> gen_name (Suc k)" by (simp add: gen_name_inj)
  then have v: "fs' (gen_name k) = None"
    unfolding fs'_def by (auto simp: rename_file_def split: option.splits)
  have at: "fs' (gen_name i) =
      (if i = k then None else if i = Suc k then fs (gen_name k) else fs (gen_name i))"
    if "i < 10" for i
    unfolding fs'_def using that k Suc.prems(2)
    by (auto simp: rename_file_def gen_name_inj split: option.splits)
  have ih: "shift_generations k fs' (gen_name j) =
           (if j = 0 then (if k = 0 then fs' (gen_name 0) else None)
            else if j \<le> k then fs' (gen_name (j - 1)) else fs' (gen_name j))"
    by (rule Suc.IH[of fs', OF k(5) v Suc.prems(3)])
  consider "j = 0" | "0 < j" "j \<le> k" | "j = Suc k" | "Suc k < j" by linarith
  then show ?case
  proof cases
    case 1
    with v show ?thesis unfolding sh ih by auto
  next
    case 2
    with k have "j - 1 < 10" "j - 1 \<noteq> k" "j - 1 \<noteq> Suc k" by simp_all
    with at[of "j - 1"] have "fs' (gen_name (j - 1)) = fs (gen_name (j - 1))" by simp
    with 2 show ?thesis unfolding sh ih by simp
  next
    case 3
    with k at[of "Suc k"] show ?thesis unfolding sh ih by simp
  next
    case 4
    with k at[of j] show ?thesis unfolding sh ih by simp
  qed
qed

lemma shift_generations_all:
  assumes "j \<le> 9"
  shows "shift_generations (MAX_LOG_FILES - 1) fs (gen_name j) =
           (if j = 0 then None else if j \<le> 8 then fs (gen_name (j - 1)) else fs (gen_name j))"
proof -
  define fs' where "fs' = (if fs (gen_name 8) \<noteq> None then unlink (gen_name 8) fs else fs)"
  have "shift_generations (Suc 8) fs = shift_generations 8 fs'"
    unfolding fs'_def by (subst shift_generations.simps) (simp add: Let_def MAX_LOG_FILES_def)
  moreover have "MAX_LOG_FILES - 1 = Suc 8" by (simp add: MAX_LOG_FILES_def)
  ultimately have sh: "shift_generations (MAX_LOG_FILES - 1) fs = shift_generations 8 fs'"
    by simp
  have v: "fs' (gen_name 8) = None" unfolding fs'_def by (simp add: unlink_def)
  have at: "fs' (gen_name i) = (if i = 8 then None else fs (gen_name i))" if "i < 10" for i
    unfolding fs'_def using that by (auto simp: unlink_def gen_name_inj)
  have e: "(8::nat) \<le> 8" by simp
  have ih: "shift_generations 8 fs' (gen_name j) =
           (if j = 0 then (if (8::nat) = 0 then fs' (gen_name 0) else None)
            else if j \<le> 8 then fs' (gen_name (j - 1)) else fs' (gen_name j))"
    by (rule shift_generations_vacant[of 8 fs' j, OF e v assms])
  consider "j = 0" | "0 < j" "j \<le> 8" | "j = 9" using assms by linarith
  then show ?thesis
  proof cases
    case 1
    then show ?thesis unfolding sh ih by simp
  next
    case 2
    then have "j - 1 < 10" "j - 1 \<noteq> 8" by simp_all
    with at[of "j - 1"] have "fs' (gen_name (j - 1)) = fs (gen_name (j - 1))" by simp
    with 2 show ?thesis unfolding sh ih by simp
  next
    case 3
    with at[of 9] show ?thesis unfolding sh ih by simp
  qed
qed

lemma rotation_without_compression:
  assumes "log_file st = Open" "\<not> enable_compression st" "files st LOG_FILE = Some c"
  shows "files (rotate_log_file env st) (gen_name 0) = Some c"
    and "0 < j \<Longrightarrow> j \<le> 8 \<Longrightarrow>
           files (rotate_log_file env st) (gen_name j) = files st (gen_name (j - 1))"
    and "files (rotate_log_file env st) (gen_name 9) = files st (gen_name 9)"
    and "files (rotate_log_file env st) LOG_FILE =
           Some (''['' @ get_timestamp env @ ''] [INFO] Log file rotated successfully'' @ [CHR 0x0A])"
    and "log_file (rotate_log_file env st) = Open"
proof -
  define sh where "sh = shift_generations (MAX_LOG_FILES - 1) (files st)"
  define line where
    "line = ''['' @ get_timestamp env @ ''] [INFO] Log file rotated successfully'' @ [CHR 0x0A]"
  have nl: "LOG_FILE \<noteq> gen_name i" if "i \<le> 9" for i
    using that by (simp add: gen_name_digit LOG_FILE_def)
  have l: "sh LOG_FILE = Some c"
    unfolding sh_def using assms(3) nl by (simp add: shift_generations_other MAX_LOG_FILES_def)
  have at: "sh (gen_name i) =
      (if i = 0 then None else if i \<le> 8 then files st (gen_name (i - 1))
       else files st (gen_name i))" if "i \<le> 9" for i
    unfolding sh_def using that by (rule shift_generations_all)
  have fs2: "rename_file LOG_FILE (gen_name 0) sh = (sh(LOG_FILE := None))(gen_name 0 := Some c)"
    using l by (simp add: rename_file_def)
  have fo: "fopen_append LOG_FILE ((sh(LOG_FILE := None))(gen_name 0 := Some c)) =
      (sh(LOG_FILE := Some []))(gen_name 0 := Some c)"
    using nl[of 0] by (auto simp: fopen_append_def)
  have r: "rotate_log_file env st =
      log_event_in_rotation env ''[INFO] Log file rotated successfully''
        (st\<lparr>log_file := Open, stream_misuse := stream_misuse st,
            files := fopen_append LOG_FILE (rename_file LOG_FILE (gen_name 0) sh)\<rparr>)"
    unfolding sh_def using assms(1,2)
    by (simp add: rotate_log_file_def rotate_log_file_with_def Let_def when_c_def)
  have small: "\<not> int (length line) > MAX_LOG_SIZE_MB * 1024 * 1024"
    by (simp add: line_def get_timestamp_def MAX_LOG_SIZE_MB_def)
  have fin: "files (rotate_log_file env st) = (sh(LOG_FILE := Some line))(gen_name 0 := Some c)"
    unfolding r fs2 fo using nl[of 0] small
    by (auto simp: log_event_in_rotation_def log_event_with_def Let_def line_def)
  show "files (rotate_log_file env st) (gen_name 0) = Some c"
    by (simp add: fin)
  show "files (rotate_log_file env st) (gen_name j) = files st (gen_name (j - 1))"
    if "0 < j" "j \<le> 8"
    using that nl[of j] gen_name_inj[of j 0] by (simp add: fin at)
  show "files (rotate_log_file env st) (gen_name 9) = files st (gen_name 9)"
    using nl[of 9] gen_name_inj[of 9 0] by (simp add: fin at)
  show "files (rotate_log_file env st) LOG_FILE =
      Some (''['' @ get_timestamp env @ ''] [INFO] Log file rotated successfully'' @ [CHR 0x0A])"
    using nl[of 0] by (simp add: fin line_def)
  show "log_file (rotate_log_file env st) = Open"
    unfolding r by (simp add: log_event_in_rotation_def log_event_with_def Let_def)
qed

lemma log_event_rotates_once:
  assumes "log_file st = Open" "mode st = MODE_ADVANCED"
    "int (length ((case files st LOG_FILE of None \<Rightarrow> [] | Some c \<Rightarrow> c) @
                  ''['' @ get_timestamp env @ ''] '' @ message @ [CHR 0x0A]))
       > MAX_LOG_SIZE_MB * 1024 * 1024"
  shows "log_event env message st =
     rotate_log_file env
       (st\<lparr>files := (files st)(LOG_FILE := Some ((case files st LOG_FILE of None \<Rightarrow> [] | Some c \<Rightarrow> c) @
                  ''['' @ get_timestamp env @ ''] '' @ message @ [CHR 0x0A]))\<rparr>)"
  using assms by (simp add: log_event_def log_event_with_def Let_def)

end
